theory Spec2Isabelle
  imports Main "HOL-Library.Word"
begin

unbundle bit_operations_syntax

section \<open>Machine types and framing constants\<close>

type_synonym u8 = "8 word"
type_synonym u16 = "16 word"

definition LINK_START_BYTE :: u8 where "LINK_START_BYTE = 0xFA"
definition LINK_DATA_START_BYTE :: u8 where "LINK_DATA_START_BYTE = 0xFB"
definition LINK_STOP_BYTE :: u8 where "LINK_STOP_BYTE = 0xFE"

section \<open>CRC-8 (link\_layer.c)\<close>

text \<open>
  One pass of the inner loop body of \<^verbatim>\<open>crc8_calc\<close> and \<^verbatim>\<open>crc8_update\<close>:
  \<^verbatim>\<open>crc = (crc & 0x80) ? (uint8_t)((crc << 1) ^ 0x07) : (uint8_t)(crc << 1)\<close>.
  The shift is done on an 8-bit word, which is the cast back to \<^verbatim>\<open>uint8_t\<close>.
\<close>

definition crc8_shift :: "u8 \<Rightarrow> u8" where
  "crc8_shift crc = (if crc AND 0x80 \<noteq> 0 then push_bit 1 crc XOR 0x07 else push_bit 1 crc)"

text \<open>The inner loop \<^verbatim>\<open>for (int j = 0; j < 8; j++)\<close>, the same text in both functions.\<close>

function crc8_bits :: "nat \<Rightarrow> u8 \<Rightarrow> u8" where
  "crc8_bits j crc = (if j < 8 then crc8_bits (j + 1) (crc8_shift crc) else crc)"
  by pat_completeness auto
termination
  by (relation "measure (\<lambda>(j, crc). 8 - j)") auto

text \<open>
  \<^verbatim>\<open>crc8_calc(data, length)\<close>: the outer loop over \<^verbatim>\<open>i < length\<close>, reading
  \<^verbatim>\<open>data[i]\<close>. The caller owns at least \<^verbatim>\<open>length\<close> bytes; the theorems say so.
\<close>

function crc8_calc_loop :: "u8 list \<Rightarrow> nat \<Rightarrow> nat \<Rightarrow> u8 \<Rightarrow> u8" where
  "crc8_calc_loop data len i crc =
     (if i < len then crc8_calc_loop data len (i + 1) (crc8_bits 0 (crc XOR data ! i)) else crc)"
  by pat_completeness auto
termination
  by (relation "measure (\<lambda>(data, len, i, crc). len - i)") auto

definition crc8_calc :: "u8 list \<Rightarrow> nat \<Rightarrow> u8" where
  "crc8_calc data len = crc8_calc_loop data len 0 0"

definition crc8_update :: "u8 \<Rightarrow> u8 \<Rightarrow> u8" where
  "crc8_update crc byte = crc8_bits 0 (crc XOR byte)"

declare crc8_bits.simps [simp del]
declare crc8_calc_loop.simps [simp del]

section \<open>The environment: UART driver, FreeRTOS heap and mutex\<close>

text \<open>
  The code runs against the ESP-IDF UART driver and the FreeRTOS kernel, which are not
  part of the repository. Their results are inputs of the model, kept in the state:
  \<^item> \<open>uart_rx\<close> holds the results of the coming \<^verbatim>\<open>uart_read_bytes\<close> calls, a byte
    or a driver failure; when it is exhausted the read blocks for ever
    (\<^verbatim>\<open>portMAX_DELAY\<close>);
  \<^item> \<open>uart_tx\<close> collects the bytes the driver accepted, \<open>uart_write_plan\<close> the
    return values of the coming \<^verbatim>\<open>uart_write_bytes\<close> calls (none left: all bytes
    are written);
  \<^item> \<open>heap_plan\<close> holds the outcomes of the coming allocations from the FreeRTOS heap
    (\<^verbatim>\<open>pvPortMalloc\<close>, \<^verbatim>\<open>xQueueCreate\<close>), \<open>take_plan\<close> those of the coming
    \<^verbatim>\<open>xSemaphoreTake\<close> calls (none left: success);
  \<^item> \<open>invoked\<close> logs every callback invocation: registry index, arguments, length.
  The other fields are the static variables of transport.c and physical.c, and the two
  locals \<^verbatim>\<open>rx_buffer\<close>, \<^verbatim>\<open>rx_len\<close> that the receiver task keeps across its loop.
  A callback is a function from its arguments to the values it leaves in
  \<^verbatim>\<open>*resp_data\<close>, \<^verbatim>\<open>*resp_len\<close> and \<^verbatim>\<open>*error_code\<close>; a pointer is an option,
  \<open>None\<close> for \<^verbatim>\<open>NULL\<close>. A C string is the list of bytes at its address: it ends at
  the first NUL, or at the end of the list. The name of a registry slot that was never
  written (\<^verbatim>\<open>NULL\<close> in the C array) is the empty list; no code reads it.
\<close>

datatype uart_read = Rx u8 | RxFail

type_synonym rpc_callback_t = "u8 list option \<Rightarrow> u16 \<Rightarrow> u8 list option \<times> u16 \<times> u8"

record rpc_entry_t =
  name :: "u8 list"
  callback :: "rpc_callback_t option"

type_synonym queue_t = "u8 list option"

record world =
  function_registry :: "rpc_entry_t list"
  registry_count :: nat
  current_counter :: u8
  pending_queue :: "queue_t option"
  rx_buffer :: "u8 list"
  rx_len :: u16
  s_uart_installed :: bool
  uart_rx :: "uart_read list"
  uart_tx :: "u8 list"
  uart_write_plan :: "int list"
  heap_plan :: "bool list"
  take_plan :: "bool list"
  invoked :: "(nat \<times> u8 list option \<times> u16) list"

definition pvPortMalloc :: "world \<Rightarrow> bool \<times> world" where
  "pvPortMalloc w =
     (case heap_plan w of [] \<Rightarrow> (True, w) | ok # plan \<Rightarrow> (ok, w\<lparr>heap_plan := plan\<rparr>))"

definition xSemaphoreTake :: "world \<Rightarrow> bool \<times> world" where
  "xSemaphoreTake w =
     (case take_plan w of [] \<Rightarrow> (True, w) | ok # plan \<Rightarrow> (ok, w\<lparr>take_plan := plan\<rparr>))"

definition uart_write_bytes :: "u8 list \<Rightarrow> nat \<Rightarrow> world \<Rightarrow> int \<times> world" where
  "uart_write_bytes data len w =
     (case uart_write_plan w of
        [] \<Rightarrow> (int len, w\<lparr>uart_tx := uart_tx w @ take len data\<rparr>)
      | r # plan \<Rightarrow>
          (r, w\<lparr>uart_write_plan := plan, uart_tx := uart_tx w @ take (nat r) (take len data)\<rparr>))"

section \<open>Physical layer (physical.c)\<close>

definition physical_send :: "u8 list option \<Rightarrow> nat \<Rightarrow> world \<Rightarrow> int \<times> world" where
  "physical_send data len w =
     (case data of
        None \<Rightarrow> (- 1, w)
      | Some d \<Rightarrow> if \<not> s_uart_installed w then (- 1, w) else uart_write_bytes d len w)"

section \<open>Link layer: sending a frame (link\_layer.c)\<close>

text \<open>\<^verbatim>\<open>memcpy(dst + off, src, n)\<close>, for a source of at least \<open>n\<close> bytes.\<close>

definition memcpy :: "u8 list \<Rightarrow> nat \<Rightarrow> u8 list \<Rightarrow> nat \<Rightarrow> u8 list" where
  "memcpy dst off src n = take off dst @ take n src @ drop (off + n) dst"

text \<open>The loop \<^verbatim>\<open>for (i = 0; i < length + 5; i++) full_crc = crc8_update(full_crc, frame[i])\<close>.\<close>

function link_send_crc_loop :: "u8 list \<Rightarrow> nat \<Rightarrow> nat \<Rightarrow> u8 \<Rightarrow> u8" where
  "link_send_crc_loop frame n i full_crc =
     (if i < n then link_send_crc_loop frame n (i + 1) (crc8_update full_crc (frame ! i))
      else full_crc)"
  by pat_completeness auto
termination
  by (relation "measure (\<lambda>(frame, n, i, full_crc). n - i)") auto

declare link_send_crc_loop.simps [simp del]

text \<open>
  The frame that \<^verbatim>\<open>link_send_frame\<close> builds in its heap buffer, index by index as the
  source does. The buffer starts with unknown content (zeros here); every index below
  \<open>length + 7\<close> is written before the frame is sent.
\<close>

definition link_build_frame :: "u8 list option \<Rightarrow> u16 \<Rightarrow> u8 list" where
  "link_build_frame payload len =
     (let frame_len = unat len + 7;
          frame = replicate frame_len (0 :: u8);
          frame = frame[0 := LINK_START_BYTE];
          frame = frame[1 := ucast (len AND 0xFF)];
          frame = frame[2 := ucast (drop_bit 8 len AND 0xFF)];
          hdr_crc = crc8_calc frame 3;
          frame = frame[3 := hdr_crc];
          frame = frame[4 := LINK_DATA_START_BYTE];
          frame = (if len > 0 then memcpy frame 5 (case payload of Some p \<Rightarrow> p | None \<Rightarrow> []) (unat len)
                   else frame);
          full_crc = link_send_crc_loop frame (unat len + 5) 0 0;
          frame = frame[5 + unat len := full_crc];
          frame = frame[6 + unat len := LINK_STOP_BYTE]
      in frame)"

definition link_send_frame :: "u8 list option \<Rightarrow> u16 \<Rightarrow> world \<Rightarrow> int \<times> world" where
  "link_send_frame payload len w =
     (if payload = None \<and> len > 0 then (- 1, w)
      else
        let frame_len = unat len + 7;
            (frame_ok, w1) = pvPortMalloc w
        in if \<not> frame_ok then (- 2, w1)
           else
             let frame = link_build_frame payload len;
                 (written, w2) = physical_send (Some frame) frame_len w1
             in (if written = int frame_len then 0 else - 3, w2))"

section \<open>Link layer: receiving a frame (link\_layer.c)\<close>

datatype rx_state =
  ST_WAIT_START | ST_LEN_LOW | ST_LEN_HIGH | ST_HDR_CRC | ST_DATA_START | ST_PAYLOAD
  | ST_FULL_CRC | ST_STOP

text \<open>
  The variables of \<^verbatim>\<open>link_receive_frame\<close> that live across its loop, with the two
  places it writes through its pointers: \<open>buffer\<close> and \<open>out_len\<close>. The source's
  \<^verbatim>\<open>length\<close> is \<open>length_v\<close> here.
\<close>

record rx_locals =
  state :: rx_state
  length_v :: u16
  idx :: u16
  hdr :: "u8 list"
  full_crc_calc :: u8
  buffer :: "u8 list"
  out_len :: u16

text \<open>
  The \<^verbatim>\<open>switch (state)\<close> on one received byte. The first component is \<open>Some 0\<close> where
  the source executes \<^verbatim>\<open>return 0\<close>, and \<open>None\<close> where it breaks out of the switch.
\<close>

definition link_rx_switch :: "u16 \<Rightarrow> u8 \<Rightarrow> rx_locals \<Rightarrow> int option \<times> rx_locals" where
  "link_rx_switch buffer_size byte l =
     (case state l of
        ST_WAIT_START \<Rightarrow>
          if byte = LINK_START_BYTE
          then (None, l\<lparr>full_crc_calc := crc8_update 0 byte, hdr := (hdr l)[0 := byte],
                         state := ST_LEN_LOW\<rparr>)
          else (None, l)
      | ST_LEN_LOW \<Rightarrow>
          (None, l\<lparr>hdr := (hdr l)[1 := byte],
                   full_crc_calc := crc8_update (full_crc_calc l) byte,
                   length_v := ucast byte, state := ST_LEN_HIGH\<rparr>)
      | ST_LEN_HIGH \<Rightarrow>
          (None, l\<lparr>hdr := (hdr l)[2 := byte],
                   full_crc_calc := crc8_update (full_crc_calc l) byte,
                   length_v := length_v l OR push_bit 8 (ucast byte), state := ST_HDR_CRC\<rparr>)
      | ST_HDR_CRC \<Rightarrow>
          if crc8_calc (hdr l) 3 \<noteq> byte then (None, l\<lparr>state := ST_WAIT_START\<rparr>)
          else (None, l\<lparr>full_crc_calc := crc8_update (full_crc_calc l) byte,
                         state := ST_DATA_START\<rparr>)
      | ST_DATA_START \<Rightarrow>
          if byte = LINK_DATA_START_BYTE
          then (None, l\<lparr>full_crc_calc := crc8_update (full_crc_calc l) byte, idx := 0,
                         state := (if length_v l = 0 then ST_FULL_CRC else ST_PAYLOAD)\<rparr>)
          else (None, l\<lparr>state := ST_WAIT_START\<rparr>)
      | ST_PAYLOAD \<Rightarrow>
          if idx l < length_v l
          then
            let l1 = (if idx l < buffer_size
                      then l\<lparr>buffer := (buffer l)[unat (idx l) := byte]\<rparr> else l);
                l2 = l1\<lparr>full_crc_calc := crc8_update (full_crc_calc l1) byte,
                        idx := idx l1 + 1\<rparr>
            in (None, if idx l2 \<ge> length_v l2 then l2\<lparr>state := ST_FULL_CRC\<rparr> else l2)
          else (None, l)
      | ST_FULL_CRC \<Rightarrow>
          if length_v l \<le> buffer_size \<and> full_crc_calc l = byte
          then (None, l\<lparr>state := ST_STOP\<rparr>)
          else (None, l\<lparr>state := ST_WAIT_START\<rparr>)
      | ST_STOP \<Rightarrow>
          if byte = LINK_STOP_BYTE then (Some 0, l\<lparr>out_len := length_v l\<rparr>)
          else (None, l\<lparr>state := ST_WAIT_START\<rparr>))"

text \<open>
  The loop \<^verbatim>\<open>for (;;)\<close> over the results of \<^verbatim>\<open>physical_receive_byte\<close>: a failed read
  returns -2, a byte goes through the switch, and with no input left the read never
  returns, so neither does the function: the result is \<open>None\<close>.
\<close>

fun link_receive_loop ::
  "u16 \<Rightarrow> rx_locals \<Rightarrow> uart_read list \<Rightarrow> int option \<times> rx_locals \<times> uart_read list" where
  "link_receive_loop buffer_size l [] = (None, l, [])"
| "link_receive_loop buffer_size l (RxFail # rest) = (Some (- 2), l, rest)"
| "link_receive_loop buffer_size l (Rx byte # rest) =
     (case link_rx_switch buffer_size byte l of
        (Some rc, l') \<Rightarrow> (Some rc, l', rest)
      | (None, l') \<Rightarrow> link_receive_loop buffer_size l' rest)"

text \<open>
  The locals at entry. \<^verbatim>\<open>hdr\<close> is not initialised in the source (zeros here); its
  three bytes are written on the way to the only state that reads them.
\<close>

definition link_rx_init :: "u8 list \<Rightarrow> u16 \<Rightarrow> rx_locals" where
  "link_rx_init buf ol =
     \<lparr>state = ST_WAIT_START, length_v = 0, idx = 0, hdr = [0, 0, 0], full_crc_calc = 0,
      buffer = buf, out_len = ol\<rparr>"

text \<open>
  \<^verbatim>\<open>link_receive_frame(buffer, buffer_size, out_len)\<close>. The result is the return value
  (\<open>None\<close>: blocked for ever on the byte source), the buffer, \<^verbatim>\<open>*out_len\<close> and the new
  state. Without an installed driver \<^verbatim>\<open>physical_receive_byte\<close> fails at once.
\<close>

definition link_receive_frame ::
  "u8 list option \<Rightarrow> u16 \<Rightarrow> u16 option \<Rightarrow> world
     \<Rightarrow> int option \<times> u8 list option \<times> u16 option \<times> world" where
  "link_receive_frame buf buffer_size ol w =
     (case (buf, ol) of
        (Some b, Some n) \<Rightarrow>
          if \<not> s_uart_installed w then (Some (- 2), buf, ol, w)
          else
            (case link_receive_loop buffer_size (link_rx_init b n) (uart_rx w) of
               (rc, l, rest) \<Rightarrow> (rc, Some (buffer l), Some (out_len l), w\<lparr>uart_rx := rest\<rparr>))
      | _ \<Rightarrow> (Some (- 1), buf, ol, w))"

section \<open>Transport layer: constants, strings and the registry (transport.h, transport.c)\<close>

definition MSG_TYPE_REQUEST :: u8 where "MSG_TYPE_REQUEST = 0x0B"
definition MSG_TYPE_RESPONSE :: u8 where "MSG_TYPE_RESPONSE = 0x16"
definition MSG_TYPE_ERROR :: u8 where "MSG_TYPE_ERROR = 0x21"
definition ERR_FUNC_NOT_FOUND :: u8 where "ERR_FUNC_NOT_FOUND = 1"
definition ERR_INTERNAL :: u8 where "ERR_INTERNAL = 2"
definition MAX_FUNCTIONS :: nat where "MAX_FUNCTIONS = 8"

text \<open>\<^verbatim>\<open>strlen\<close> and \<^verbatim>\<open>strncmp\<close> of the C library, on the bytes at the two addresses.\<close>

definition strlen :: "u8 list \<Rightarrow> nat" where
  "strlen s = length (takeWhile (\<lambda>c. c \<noteq> 0) s)"

fun strncmp :: "u8 list \<Rightarrow> u8 list \<Rightarrow> nat \<Rightarrow> int" where
  "strncmp s1 s2 0 = 0"
| "strncmp s1 s2 (Suc n) =
     (let c1 = (case s1 of [] \<Rightarrow> 0 | c # _ \<Rightarrow> c);
          c2 = (case s2 of [] \<Rightarrow> 0 | c # _ \<Rightarrow> c)
      in if c1 \<noteq> c2 then (if c1 < c2 then - 1 else 1)
         else if c1 = 0 then 0
         else strncmp (tl s1) (tl s2) n)"

text \<open>
  \<^verbatim>\<open>transport_register_function(name, callback)\<close>: the return value and the new state.
  The copy of the name is its \<^verbatim>\<open>strlen\<close> bytes and a NUL.
\<close>

definition transport_register_function ::
  "u8 list option \<Rightarrow> rpc_callback_t option \<Rightarrow> world \<Rightarrow> int \<times> world" where
  "transport_register_function nm cb w =
     (case (nm, cb) of
        (Some s, Some f) \<Rightarrow>
          if registry_count w \<ge> MAX_FUNCTIONS then (- 2, w)
          else
            let nlen = strlen s;
                (copy_ok, w1) = pvPortMalloc w
            in if \<not> copy_ok then (- 3, w1)
               else
                 let copy = memcpy (replicate (nlen + 1) 0) 0 s nlen;
                     copy = copy[nlen := 0]
                 in (0, w1\<lparr>function_registry :=
                             (function_registry w1)[registry_count w1 :=
                                \<lparr>name = copy, callback = Some f\<rparr>],
                           registry_count := registry_count w1 + 1\<rparr>)
      | _ \<Rightarrow> (- 1, w))"

text \<open>
  \<^verbatim>\<open>find_function(name, name_len)\<close>: the loop over \<^verbatim>\<open>i < registry_count\<close>; the result
  is the index of the entry whose address the source returns, \<open>None\<close> for \<^verbatim>\<open>NULL\<close>.
\<close>

function find_function_loop :: "u8 list \<Rightarrow> u8 \<Rightarrow> world \<Rightarrow> nat \<Rightarrow> nat option" where
  "find_function_loop nm name_len w i =
     (if i < registry_count w
      then
        if strlen (name (function_registry w ! i)) = unat name_len
           \<and> strncmp (name (function_registry w ! i)) nm (unat name_len) = 0
        then Some i
        else find_function_loop nm name_len w (i + 1)
      else None)"
  by pat_completeness auto
termination
  by (relation "measure (\<lambda>(nm, name_len, w, i). registry_count w - i)") auto

declare find_function_loop.simps [simp del]

definition find_function :: "u8 list \<Rightarrow> u8 \<Rightarrow> world \<Rightarrow> nat option" where
  "find_function nm name_len w = find_function_loop nm name_len w 0"

section \<open>Transport layer: the receiver task (transport.c)\<close>

definition send_error_response :: "u8 \<Rightarrow> u8 \<Rightarrow> world \<Rightarrow> world" where
  "send_error_response counter error_code w =
     (let payload = replicate 3 (0 :: u8);
          payload = payload[0 := MSG_TYPE_ERROR];
          payload = payload[1 := counter];
          payload = payload[2 := error_code]
      in snd (link_send_frame (Some payload) 3 w))"

definition send_response :: "u8 \<Rightarrow> u8 list option \<Rightarrow> u16 \<Rightarrow> world \<Rightarrow> world" where
  "send_response counter data len w =
     (let (payload_ok, w1) = pvPortMalloc w
      in if \<not> payload_ok then send_error_response counter ERR_INTERNAL w1
         else
           let payload = replicate (2 + unat len) (0 :: u8);
               payload = payload[0 := MSG_TYPE_RESPONSE];
               payload = payload[1 := counter];
               payload = (case data of
                            Some d \<Rightarrow> if len > 0 then memcpy payload 2 d (unat len) else payload
                          | None \<Rightarrow> payload)
           in snd (link_send_frame (Some payload) (2 + len) w1))"

text \<open>
  \<^verbatim>\<open>xQueueSend(pending_queue, &copy, 0)\<close> on the queue of one slot: the item is stored
  when the slot is free, and the call fails at once otherwise.
\<close>

definition xQueueSend :: "u8 list \<Rightarrow> world \<Rightarrow> world" where
  "xQueueSend item w =
     (case pending_queue w of
        Some None \<Rightarrow> w\<lparr>pending_queue := Some (Some item)\<rparr>
      | _ \<Rightarrow> w)"

text \<open>The scan \<^verbatim>\<open>while (i < rx_len && rx_buffer[i] != 0x00) i++\<close>.\<close>

function scan_name :: "u8 list \<Rightarrow> nat \<Rightarrow> nat \<Rightarrow> nat" where
  "scan_name rx n i = (if i < n \<and> rx ! i \<noteq> 0 then scan_name rx n (i + 1) else i)"
  by pat_completeness auto
termination
  by (relation "measure (\<lambda>(rx, n, i). n - i)") auto

declare scan_name.simps [simp del]

text \<open>
  The case \<^verbatim>\<open>MSG_TYPE_REQUEST\<close> of the receiver's switch. The callback gets the
  \<^verbatim>\<open>args_len\<close> bytes at \<^verbatim>\<open>&rx_buffer[args_offset]\<close>. Calling a \<^verbatim>\<open>NULL\<close>
  callback would crash; registration stores none, and the model leaves the state as it
  is in that case.
\<close>

definition receiver_request :: "u8 \<Rightarrow> world \<Rightarrow> world" where
  "receiver_request counter w =
     (if rx_len w < 3 then send_error_response counter ERR_INTERNAL w
      else
        let i = scan_name (rx_buffer w) (unat (rx_len w)) 2
        in if i \<ge> unat (rx_len w) then send_error_response counter ERR_INTERNAL w
           else
             let name_len = (of_nat (i - 2) :: u8);
                 nm = drop 2 (rx_buffer w);
                 args_offset = (of_nat (i + 1) :: u16);
                 args_len = (if args_offset \<le> rx_len w then rx_len w - args_offset else 0);
                 args = (if args_len > 0
                         then Some (take (unat args_len) (drop (unat args_offset) (rx_buffer w)))
                         else None)
             in case find_function nm name_len w of
                  None \<Rightarrow> send_error_response counter ERR_FUNC_NOT_FOUND w
                | Some e \<Rightarrow>
                    (case callback (function_registry w ! e) of
                       None \<Rightarrow> w
                     | Some f \<Rightarrow>
                         (case f args args_len of
                            (resp_data, resp_len, err_code) \<Rightarrow>
                              let w1 = w\<lparr>invoked := invoked w @ [(e, args, args_len)]\<rparr>
                              in if err_code \<noteq> 0 then send_error_response counter err_code w1
                                 else send_response counter resp_data resp_len w1)))"

text \<open>The cases \<^verbatim>\<open>MSG_TYPE_RESPONSE\<close> and \<^verbatim>\<open>MSG_TYPE_ERROR\<close> of the receiver's switch.\<close>

definition receiver_reply :: "u8 \<Rightarrow> u8 \<Rightarrow> world \<Rightarrow> world" where
  "receiver_reply msg_type counter w =
     (let w1 = snd (xSemaphoreTake w)
      in if pending_queue w1 \<noteq> None \<and> counter = current_counter w1
         then
           let err = (if msg_type = MSG_TYPE_ERROR
                      then (if rx_len w1 \<ge> 3 then rx_buffer w1 ! 2 else ERR_INTERNAL)
                      else 0);
               payload_len = (if msg_type = MSG_TYPE_ERROR then 0
                              else if rx_len w1 \<ge> 2 then rx_len w1 - 2 else 0);
               (copy_ok, w2) = pvPortMalloc w1
           in if copy_ok
              then
                let copy = replicate (2 + 1 + unat payload_len) (0 :: u8);
                    copy = copy[0 := ucast (payload_len AND 0xFF)];
                    copy = copy[1 := ucast (drop_bit 8 payload_len AND 0xFF)];
                    copy = copy[2 := err];
                    copy = (if msg_type = MSG_TYPE_RESPONSE \<and> payload_len > 0
                            then memcpy copy 3 (drop 2 (rx_buffer w2)) (unat payload_len)
                            else copy)
                in xQueueSend copy w2
              else w2
         else w1)"

text \<open>
  The body of the receiver's loop after a frame of at least two bytes has arrived:
  \<^verbatim>\<open>switch (type)\<close>.
\<close>

definition receiver_dispatch :: "world \<Rightarrow> world" where
  "receiver_dispatch w =
     (let msg_type = rx_buffer w ! 0;
          counter = rx_buffer w ! 1
      in if msg_type = MSG_TYPE_REQUEST then receiver_request counter w
         else if msg_type = MSG_TYPE_RESPONSE \<or> msg_type = MSG_TYPE_ERROR
         then receiver_reply msg_type counter w
         else w)"

text \<open>
  One pass of the loop of \<^verbatim>\<open>transport_receiver_task\<close>. When the byte source is
  exhausted the task stays blocked inside \<^verbatim>\<open>link_receive_frame\<close>: the pass ends with
  the state reached there.
\<close>

definition transport_receiver_task :: "world \<Rightarrow> world" where
  "transport_receiver_task w =
     (case link_receive_frame (Some (rx_buffer w)) 256 (Some (rx_len w)) w of
        (rc, buf, ol, w1) \<Rightarrow>
          let w2 = w1\<lparr>rx_buffer := (case buf of Some b \<Rightarrow> b | None \<Rightarrow> rx_buffer w1),
                      rx_len := (case ol of Some n \<Rightarrow> n | None \<Rightarrow> rx_len w1)\<rparr>
          in if rc \<noteq> Some 0 then w2
             else if rx_len w2 < 2 then w2
             else receiver_dispatch w2)"

section \<open>Transport layer: the synchronous call (transport.c)\<close>

text \<open>
  \<^verbatim>\<open>xQueueReceive(pending_queue, &resp_ptr, timeout)\<close>. While the caller is blocked the
  receiver task runs; the timeout is counted in passes of its loop. The result is the
  item taken from the slot, or \<open>None\<close> when the timeout expires with the slot empty.
\<close>

fun xQueueReceive :: "nat \<Rightarrow> world \<Rightarrow> u8 list option \<times> world" where
  "xQueueReceive 0 w =
     (case pending_queue w of
        Some (Some item) \<Rightarrow> (Some item, w\<lparr>pending_queue := Some None\<rparr>)
      | _ \<Rightarrow> (None, w))"
| "xQueueReceive (Suc n) w =
     (case pending_queue w of
        Some (Some item) \<Rightarrow> (Some item, w\<lparr>pending_queue := Some None\<rparr>)
      | _ \<Rightarrow> xQueueReceive n (transport_receiver_task w))"

text \<open>
  What the caller of \<^verbatim>\<open>transport_call\<close> finds behind the three output pointers
  \<^verbatim>\<open>response\<close>, \<^verbatim>\<open>resp_len\<close> and \<^verbatim>\<open>error_code\<close>.
\<close>

record call_out =
  response :: "u8 list option"
  resp_len :: u16
  error_code :: u8

text \<open>
  The part of \<^verbatim>\<open>transport_call\<close> after the envelope \<open>resp_buf\<close> has been received:
  unpacking, the copy for the caller, and the clearing of the pending state
  (\<^verbatim>\<open>xSemaphoreTake; vQueueDelete; pending_queue = NULL; xSemaphoreGive\<close>).
\<close>

definition clear_pending :: "world \<Rightarrow> world" where
  "clear_pending w = (snd (xSemaphoreTake w))\<lparr>pending_queue := None\<rparr>"

definition transport_call_deliver :: "u8 list \<Rightarrow> call_out \<Rightarrow> world \<Rightarrow> int \<times> call_out \<times> world" where
  "transport_call_deliver resp_buf out w =
     (let datalen = (ucast (resp_buf ! 0) :: u16) OR push_bit 8 (ucast (resp_buf ! 1));
          out = out\<lparr>error_code := resp_buf ! 2\<rparr>
      in if error_code out = 0
         then
           let out = out\<lparr>resp_len := datalen\<rparr>
           in if datalen > 0
              then
                let (response_ok, w1) = pvPortMalloc w
                in if response_ok
                   then (0, out\<lparr>response := Some (take (unat datalen) (drop 3 resp_buf))\<rparr>,
                         clear_pending w1)
                   else (- 8, out\<lparr>response := None\<rparr>, w1)
              else (0, out\<lparr>response := None\<rparr>, clear_pending w)
         else (0, out\<lparr>resp_len := 0, response := None\<rparr>, clear_pending w))"

text \<open>
  \<^verbatim>\<open>transport_call\<close>. The three output pointers are one argument: \<open>None\<close> when any of
  them is \<^verbatim>\<open>NULL\<close>, else the values their targets hold at entry. The request is
  written at the offsets the source uses (a request of more than 65535 bytes overruns
  the heap buffer in C; the model gives that case no meaning). \<open>timeout\<close> counts the
  passes of the receiver loop that fit into \<^verbatim>\<open>timeout_ms\<close>. The mutex is held from
  its take to the matching give, so each such section is one step here.
\<close>

definition transport_call ::
  "u8 list option \<Rightarrow> u8 list option \<Rightarrow> u16 \<Rightarrow> call_out option \<Rightarrow> nat \<Rightarrow> world
     \<Rightarrow> int \<times> call_out option \<times> world" where
  "transport_call nm args args_len outp timeout w =
     (case (nm, outp) of
        (Some s, Some out) \<Rightarrow>
          (case xSemaphoreTake w of
             (False, w1) \<Rightarrow> (- 2, outp, w1)
           | (True, w1) \<Rightarrow>
               if pending_queue w1 \<noteq> None then (- 3, outp, w1)
               else
                 (case pvPortMalloc w1 of
                    (False, w2) \<Rightarrow> (- 4, outp, w2)
                  | (True, w2) \<Rightarrow>
                      let w3 = w2\<lparr>pending_queue := Some None\<rparr>;
                          w3 = w3\<lparr>current_counter := current_counter w3 + 1\<rparr>;
                          counter = current_counter w3;
                          name_len = (of_nat (strlen s) :: u8);
                          payload_len = (2 + ucast name_len + 1 + args_len :: u16)
                      in case pvPortMalloc w3 of
                           (False, w4) \<Rightarrow> (- 5, outp, w4\<lparr>pending_queue := None\<rparr>)
                         | (True, w4) \<Rightarrow>
                             let payload = replicate (unat payload_len) (0 :: u8);
                                 payload = payload[0 := MSG_TYPE_REQUEST];
                                 payload = payload[1 := counter];
                                 payload = memcpy payload 2 s (unat name_len);
                                 off = 2 + unat name_len;
                                 payload = payload[off := 0];
                                 payload = (case args of
                                              Some a \<Rightarrow>
                                                if args_len > 0
                                                then memcpy payload (off + 1) a (unat args_len)
                                                else payload
                                            | None \<Rightarrow> payload)
                             in case link_send_frame (Some payload) payload_len w4 of
                                  (send_rc, w5) \<Rightarrow>
                                    if send_rc \<noteq> 0
                                    then (- 6, outp, w5\<lparr>pending_queue := None\<rparr>)
                                    else
                                      (case xQueueReceive timeout w5 of
                                         (None, w6) \<Rightarrow> (- 7, outp, clear_pending w6)
                                       | (Some resp_buf, w6) \<Rightarrow>
                                           (case transport_call_deliver resp_buf out w6 of
                                              (r, out', w7) \<Rightarrow> (r, Some out', w7)))))
      | _ \<Rightarrow> (- 1, outp, w))"

text \<open>
  The state after \<^verbatim>\<open>physical_init\<close> and \<^verbatim>\<open>transport_init\<close>, before any registration:
  the statics as C initialises them, an installed driver, no input, and every call into
  the driver and the kernel succeeding. The receiver's \<^verbatim>\<open>rx_buffer\<close>, which C leaves
  uninitialised, holds zeros.
\<close>

definition world_init :: world where
  "world_init =
     \<lparr>function_registry = replicate MAX_FUNCTIONS \<lparr>name = [], callback = None\<rparr>,
      registry_count = 0, current_counter = 0, pending_queue = None,
      rx_buffer = replicate 256 0, rx_len = 0, s_uart_installed = True,
      uart_rx = [], uart_tx = [], uart_write_plan = [], heap_plan = [], take_plan = [],
      invoked = []\<rparr>"

section \<open>An application handler (rpc\_app.c)\<close>

text \<open>
  \<^verbatim>\<open>rpc_echo\<close>, for the examples: the reply is the argument bytes and a NUL sentinel,
  its length is \<^verbatim>\<open>args_len\<close>, and the error code is 0 (the handler's own
  allocation is taken to succeed).
\<close>

definition rpc_echo :: rpc_callback_t where
  "rpc_echo args args_len =
     (let buf = replicate (unat args_len + 1) (0 :: u8);
          buf = (case args of
                   Some a \<Rightarrow> if args_len > 0 then memcpy buf 0 a (unat args_len) else buf
                 | None \<Rightarrow> buf);
          buf = buf[unat args_len := 0]
      in (Some buf, args_len, 0))"

section \<open>States for the examples\<close>

text \<open>
  The name \<^verbatim>\<open>"sum"\<close>, and the state in which it has been registered twice, as two
  calls of \<^verbatim>\<open>transport_register_function\<close> leave it.
\<close>

definition name_sum :: "u8 list" where
  "name_sum = [0x73, 0x75, 0x6D]"

definition world_sum_twice :: world where
  "world_sum_twice =
     snd (transport_register_function (Some name_sum) (Some rpc_echo)
            (snd (transport_register_function (Some name_sum) (Some rpc_echo) world_init)))"

text \<open>
  A caller's output variables before a call, and a state in which the peer's Response
  \<open>[0x16, 0x01, 0x33]\<close> to the first call is on the wire while the heap serves four
  allocations (the queue, the request, its frame, the receiver's envelope) and refuses
  the fifth.
\<close>

definition out_init :: call_out where
  "out_init = \<lparr>response = None, resp_len = 0, error_code = 0\<rparr>"

definition world_reply_heap_exhausted :: world where
  "world_reply_heap_exhausted =
     world_init\<lparr>uart_rx := map Rx (link_build_frame (Some [0x16, 0x01, 0x33]) 3),
                heap_plan := [True, True, True, True, False]\<rparr>"

section \<open>The wire format, for stating the link-layer theorems\<close>

text \<open>
  The five bytes before the payload (start marker, length low and high, header CRC,
  data-start marker), the bytes of a whole frame, and what the payload state does to
  the output buffer: the byte with index \<open>k\<close> is stored when \<open>k\<close> is below the
  capacity and dropped otherwise.
\<close>

definition link_header :: "u16 \<Rightarrow> u8 list" where
  "link_header len =
     (let h = [LINK_START_BYTE, ucast (len AND 0xFF), ucast (drop_bit 8 len AND 0xFF)]
      in h @ [foldl crc8_update 0 h, LINK_DATA_START_BYTE])"

definition link_frame :: "u8 list \<Rightarrow> u8 list" where
  "link_frame p =
     (let body = link_header (of_nat (length p)) @ p
      in body @ [foldl crc8_update 0 body, LINK_STOP_BYTE])"

fun store_payload :: "nat \<Rightarrow> nat \<Rightarrow> u8 list \<Rightarrow> u8 list \<Rightarrow> u8 list" where
  "store_payload cap k [] buf = buf"
| "store_payload cap k (p # ps) buf =
     store_payload cap (k + 1) ps (if k < cap then buf[k := p] else buf)"

section \<open>CRC-8: block and incremental forms agree\<close>

lemma crc8_calc_loop_foldl:
  "i \<le> len \<Longrightarrow> len \<le> length data \<Longrightarrow>
   crc8_calc_loop data len i crc = foldl crc8_update crc (take (len - i) (drop i data))"
proof (induction data len i crc rule: crc8_calc_loop.induct)
  case (1 data len i crc)
  show ?case
  proof (cases "i < len")
    case True
    with "1.prems" have d: "drop i data = data ! i # drop (Suc i) data"
      by (simp add: Cons_nth_drop_Suc)
    from True have t: "len - i = Suc (len - Suc i)" by simp
    from True "1.prems" have
      "crc8_calc_loop data len (i + 1) (crc8_bits 0 (crc XOR data ! i)) =
       foldl crc8_update (crc8_bits 0 (crc XOR data ! i)) (take (len - (i + 1)) (drop (i + 1) data))"
      by (intro "1.IH") simp_all
    with True show ?thesis
      by (subst crc8_calc_loop.simps) (simp add: d t crc8_update_def)
  next
    case False
    with "1.prems" show ?thesis
      by (subst crc8_calc_loop.simps) simp
  qed
qed

lemma crc8_calc_foldl:
  "len \<le> length data \<Longrightarrow> crc8_calc data len = foldl crc8_update 0 (take len data)"
  by (simp add: crc8_calc_def crc8_calc_loop_foldl)

text \<open>
  Claim C6. For a byte sequence \<open>data\<close> and a length \<open>n\<close> within it, folding
  \<^verbatim>\<open>crc8_update\<close> over the first \<open>n\<close> bytes from the initial value 0 gives
  \<^verbatim>\<open>crc8_calc(data, n)\<close>, and one more byte of the block function is one call of
  the incremental function on the block result of the prefix.
\<close>

theorem crc8_update_matches_crc8_calc:
  "n \<le> length data \<Longrightarrow>
     foldl crc8_update 0 (take n data) = crc8_calc data n \<and>
     (n < length data \<longrightarrow> crc8_calc data (n + 1) = crc8_update (crc8_calc data n) (data ! n))"
proof -
  assume n: "n \<le> length data"
  have a: "foldl crc8_update 0 (take n data) = crc8_calc data n"
    using n by (simp add: crc8_calc_foldl)
  have b: "crc8_calc data (n + 1) = crc8_update (crc8_calc data n) (data ! n)" if "n < length data"
    using that by (simp add: crc8_calc_foldl take_Suc_conv_app_nth)
  from a b show ?thesis by blast
qed

theorem crc8_update_matches_crc8_calc_witness:
  "(2::nat) \<le> length [0x31, 0x32, 0x33 :: u8] \<and>
   foldl crc8_update 0 (take 2 [0x31, 0x32, 0x33 :: u8]) = crc8_calc [0x31, 0x32, 0x33] 2 \<and>
   crc8_calc [0x31, 0x32, 0x33 :: u8] (2 + 1) = crc8_update (crc8_calc [0x31, 0x32, 0x33] 2) 0x33"
  using crc8_update_matches_crc8_calc [of 2 "[0x31, 0x32, 0x33 :: u8]"] by simp

section \<open>Link layer: the frame that is sent\<close>

lemma link_send_crc_loop_foldl:
  "i \<le> n \<Longrightarrow> n \<le> length frame \<Longrightarrow>
   link_send_crc_loop frame n i c = foldl crc8_update c (take (n - i) (drop i frame))"
proof (induction frame n i c rule: link_send_crc_loop.induct)
  case (1 frame n i c)
  show ?case
  proof (cases "i < n")
    case True
    with "1.prems" have d: "drop i frame = frame ! i # drop (Suc i) frame"
      by (simp add: Cons_nth_drop_Suc)
    from True have t: "n - i = Suc (n - Suc i)" by simp
    from True "1.prems" have
      "link_send_crc_loop frame n (i + 1) (crc8_update c (frame ! i)) =
       foldl crc8_update (crc8_update c (frame ! i)) (take (n - (i + 1)) (drop (i + 1) frame))"
      by (intro "1.IH") simp_all
    with True show ?thesis
      by (subst link_send_crc_loop.simps) (simp add: d t)
  next
    case False
    with "1.prems" show ?thesis
      by (subst link_send_crc_loop.simps) simp
  qed
qed

lemma replicate_frame:
  "replicate (n + 7) (0 :: u8) = [0, 0, 0, 0, 0] @ replicate n 0 @ [0, 0]"
proof -
  have "n + 7 = 5 + (n + 2)" by simp
  then have "replicate (n + 7) (0 :: u8) = replicate 5 0 @ replicate n 0 @ replicate 2 0"
    by (simp only: replicate_add)
  moreover have "replicate 5 (0 :: u8) = [0, 0, 0, 0, 0]" by (simp add: numeral_eq_Suc)
  moreover have "replicate 2 (0 :: u8) = [0, 0]" by (simp add: numeral_eq_Suc)
  ultimately show ?thesis by simp
qed

lemma take_frame_body:
  "take (length p + 5) (a # b # c # d # e # p @ xs) = a # b # c # d # e # p"
proof -
  have "a # b # c # d # e # p @ xs = (a # b # c # d # e # p) @ xs" by simp
  moreover have "length (a # b # c # d # e # p) = length p + 5" by simp
  ultimately show ?thesis by (metis append_eq_conv_conj)
qed

lemma build_frame_closed:
  assumes "length p = unat len"
  shows "link_build_frame (Some p) len = link_header len @ p @ [foldl crc8_update 0 (link_header len @ p), LINK_STOP_BYTE]"
proof (cases "len = 0")
  case True
  with assms have "p = []" by simp
  with True show ?thesis
    by (simp add: link_build_frame_def link_header_def Let_def crc8_calc_foldl link_send_crc_loop_foldl numeral_eq_Suc)
next
  case False
  then have pos: "len > 0" by (simp add: word_greater_zero_iff)
  show ?thesis using pos assms [symmetric]
    apply (simp add: link_build_frame_def link_header_def Let_def replicate_frame memcpy_def crc8_calc_foldl link_send_crc_loop_foldl)
    apply (simp add: list_update_append nth_append take_frame_body numeral_2_eq_2)
    done
qed

lemma link_send_frame_ok:
  assumes "link_send_frame (Some p) len w = (0, w')" and "length p = unat len"
  shows "uart_tx w' = uart_tx w @ link_build_frame (Some p) len"
proof -
  let ?frame = "link_build_frame (Some p) len"
  have len: "length ?frame = unat len + 7"
    using assms(2) by (simp add: build_frame_closed link_header_def Let_def)
  obtain ok w1 where m: "pvPortMalloc w = (ok, w1)" by (cases "pvPortMalloc w")
  then have tx1: "uart_tx w1 = uart_tx w"
    by (auto simp: pvPortMalloc_def split: list.splits)
  obtain written w2 where s: "physical_send (Some ?frame) (unat len + 7) w1 = (written, w2)"
    by (cases "physical_send (Some ?frame) (unat len + 7) w1")
  from assms(1) m s have ok and wr: "written = int (unat len + 7)" and w': "w' = w2"
    by (auto simp: link_send_frame_def Let_def split: if_splits)
  have u0: "8 + uint len \<noteq> 0"
    using uint_ge_0 [of len] by linarith
  have n: "nat (uint len + 7) = unat len + 7"
    by (simp add: nat_add_distrib)
  from s wr have "uart_tx w2 = uart_tx w1 @ ?frame"
    using len u0 n
    by (auto simp: physical_send_def uart_write_bytes_def split: if_splits list.splits)
  with tx1 w' show ?thesis by simp
qed

lemma link_build_frame_eq_link_frame:
  "length p \<le> 65535 \<Longrightarrow> link_build_frame (Some p) (of_nat (length p)) = link_frame p"
proof -
  assume "length p \<le> 65535"
  then have "length p = unat (of_nat (length p) :: u16)"
    by (simp add: unat_of_nat)
  then show ?thesis
    by (simp add: build_frame_closed link_frame_def Let_def)
qed

section \<open>Link layer: the receive state machine on a frame\<close>

lemma mask8_u16: "(0xFF :: u16) = mask 8"
  by (simp add: mask_eq_exp_minus_1)

lemma split_len: "(ucast (ucast (len AND 0xFF) :: u8) :: u16) OR push_bit 8 (ucast (ucast (drop_bit 8 len AND 0xFF) :: u8)) = (len :: u16)"
  unfolding mask8_u16
  apply (rule bit_word_eqI)
  apply (auto simp add: bit_simps)
  done

lemma hdr3: "length (h :: u8 list) = 3 \<Longrightarrow> h[0 := a, Suc 0 := b, 2 := c] = [a, b, c]"
  by (cases h; cases "tl h"; cases "tl (tl h)") (auto simp: numeral_eq_Suc)

lemma rx_header:
  assumes "state l = ST_WAIT_START" and "length (hdr l) = 3"
  shows "link_receive_loop bs l (map Rx (link_header len) @ rest) =
         link_receive_loop bs
           (l\<lparr>full_crc_calc := foldl crc8_update 0 (link_header len),
              hdr := take 3 (link_header len), length_v := len, idx := 0,
              state := (if len = 0 then ST_FULL_CRC else ST_PAYLOAD)\<rparr>) rest"
  using assms
  by (cases l) (simp add: link_header_def Let_def link_rx_switch_def hdr3 crc8_calc_foldl split_len
      LINK_START_BYTE_def LINK_DATA_START_BYTE_def)


lemma store_payload_length [simp]: "length (store_payload cap k ps buf) = length buf"
  by (induction ps arbitrary: k buf) auto

lemma store_payload_nth:
  "i < length buf \<Longrightarrow>
   store_payload cap k ps buf ! i =
     (if k \<le> i \<and> i < k + length ps \<and> i < cap then ps ! (i - k) else buf ! i)"
proof (induction ps arbitrary: k buf)
  case Nil
  then show ?case by auto
next
  case (Cons p ps)
  then show ?case
    by (auto simp: nth_list_update nth_Cons')
qed

lemma store_payload_closed:
  assumes "cap \<le> length buf"
  shows "store_payload cap 0 ps buf = take (min cap (length ps)) ps @ drop (min cap (length ps)) buf"
  using assms
  by (intro nth_equalityI) (auto simp: store_payload_nth nth_append)

lemma rx_payload:
  "state l = ST_PAYLOAD \<Longrightarrow> ps \<noteq> [] \<Longrightarrow> unat (idx l) + length ps = unat (length_v l) \<Longrightarrow>
   link_receive_loop bs l (map Rx ps @ rest) =
   link_receive_loop bs
     (l\<lparr>buffer := store_payload (unat bs) (unat (idx l)) ps (buffer l),
        full_crc_calc := foldl crc8_update (full_crc_calc l) ps,
        idx := length_v l, state := ST_FULL_CRC\<rparr>) rest"
proof (induction ps arbitrary: l)
  case Nil
  then show ?case by simp
next
  case (Cons p ps)
  from Cons.prems have lt: "idx l < length_v l"
    by (simp add: word_less_nat_alt)
  then have suc: "unat (idx l + 1) = unat (idx l) + 1"
    by unat_arith
  show ?case
  proof (cases "ps = []")
    case True
    with Cons.prems suc have "idx l + 1 = length_v l"
      by (simp add: word_unat_eq_iff)
    with True lt Cons.prems show ?thesis
      by (cases l) (simp add: link_rx_switch_def Let_def word_less_nat_alt)
  next
    case False
    then obtain q qs where "ps = q # qs" by (cases ps) auto
    with Cons.prems suc have "idx l + 1 < length_v l"
      unfolding word_less_nat_alt by simp
    then have nle: "\<not> length_v l \<le> idx l + 1" by simp
    let ?l' = "(if idx l < bs then l\<lparr>buffer := (buffer l)[unat (idx l) := p]\<rparr> else l)
                 \<lparr>full_crc_calc := crc8_update (full_crc_calc l) p, idx := idx l + 1\<rparr>"
    have step: "link_rx_switch bs p l = (None, ?l')"
      using lt nle Cons.prems(1) by (cases l) (simp add: link_rx_switch_def Let_def)
    have "link_receive_loop bs ?l' (map Rx ps @ rest) =
          link_receive_loop bs
           (?l'\<lparr>buffer := store_payload (unat bs) (unat (idx ?l')) ps (buffer ?l'),
              full_crc_calc := foldl crc8_update (full_crc_calc ?l') ps,
              idx := length_v ?l', state := ST_FULL_CRC\<rparr>) rest"
      using Cons.prems False suc by (intro Cons.IH) auto
    then show ?thesis
      using step suc by (cases l) (simp add: word_less_nat_alt)
  qed
qed

lemma rx_body:
  assumes "state l = ST_WAIT_START" and "length (hdr l) = 3" and "length p = unat len"
  shows "link_receive_loop bs l (map Rx (link_header len @ p) @ rest) =
         link_receive_loop bs
           (l\<lparr>buffer := store_payload (unat bs) 0 p (buffer l),
              full_crc_calc := foldl crc8_update 0 (link_header len @ p),
              hdr := take 3 (link_header len), length_v := len, idx := len,
              state := ST_FULL_CRC\<rparr>) rest"
proof (cases "len = 0")
  case True
  with assms(3) have "p = []" by simp
  with True rx_header [OF assms(1,2), of bs len rest] show ?thesis
    by (cases l) simp
next
  case False
  with assms(3) have ne: "p \<noteq> []" by (auto simp: unat_eq_0)
  let ?l1 = "l\<lparr>full_crc_calc := foldl crc8_update 0 (link_header len),
              hdr := take 3 (link_header len), length_v := len, idx := 0,
              state := (if len = 0 then ST_FULL_CRC else ST_PAYLOAD)\<rparr>"
  have "link_receive_loop bs l (map Rx (link_header len @ p) @ rest) =
        link_receive_loop bs ?l1 (map Rx p @ rest)"
    using rx_header [OF assms(1,2), of bs len "map Rx p @ rest"] by simp
  also have "\<dots> = link_receive_loop bs
     (?l1\<lparr>buffer := store_payload (unat bs) (unat (idx ?l1)) p (buffer ?l1),
        full_crc_calc := foldl crc8_update (full_crc_calc ?l1) p,
        idx := length_v ?l1, state := ST_FULL_CRC\<rparr>) rest"
    using False ne assms(3) by (intro rx_payload) simp_all
  finally show ?thesis
    by (cases l) simp
qed

lemma rx_frame_accept:
  assumes "state l = ST_WAIT_START" and "length (hdr l) = 3" and "length p = unat len"
    and "len \<le> bs"
  shows "link_receive_loop bs l
           (map Rx (link_header len @ p @ [foldl crc8_update 0 (link_header len @ p), LINK_STOP_BYTE]) @ rest) =
         (Some 0,
          l\<lparr>buffer := store_payload (unat bs) 0 p (buffer l),
            full_crc_calc := foldl crc8_update 0 (link_header len @ p),
            hdr := take 3 (link_header len), length_v := len, idx := len,
            state := ST_STOP, out_len := len\<rparr>, rest)"
proof -
  have "link_receive_loop bs l
           (map Rx (link_header len @ p @ [foldl crc8_update 0 (link_header len @ p), LINK_STOP_BYTE]) @ rest) =
        link_receive_loop bs l (map Rx (link_header len @ p) @
           (Rx (foldl crc8_update 0 (link_header len @ p)) # Rx LINK_STOP_BYTE # rest))"
    by simp
  also note rx_body [OF assms(1-3)]
  finally show ?thesis
    using assms(4) by (cases l) (simp add: link_rx_switch_def)
qed

lemma rx_frame_too_long:
  assumes "state l = ST_WAIT_START" and "length (hdr l) = 3" and "length p = unat len"
    and "bs < len"
  shows "link_receive_loop bs l (map Rx (link_header len @ p @ [c]) @ rest) =
         link_receive_loop bs
          (l\<lparr>buffer := store_payload (unat bs) 0 p (buffer l),
            full_crc_calc := foldl crc8_update 0 (link_header len @ p),
            hdr := take 3 (link_header len), length_v := len, idx := len,
            state := ST_WAIT_START\<rparr>) rest"
proof -
  have "link_receive_loop bs l (map Rx (link_header len @ p @ [c]) @ rest) =
        link_receive_loop bs l (map Rx (link_header len @ p) @ (Rx c # rest))"
    by simp
  also note rx_body [OF assms(1-3)]
  finally show ?thesis
    using assms(4) by (cases l) (simp add: link_rx_switch_def not_le [symmetric])
qed

section \<open>Link layer: round trip\<close>

lemma link_receive_frame_accepts:
  assumes "length p \<le> 65535"
    and "length p \<le> unat buffer_size" and "unat buffer_size \<le> length buf"
    and "s_uart_installed wr"
    and "uart_rx wr = map Rx (link_build_frame (Some p) (of_nat (length p))) @ rest"
  shows "link_receive_frame (Some buf) buffer_size (Some ol) wr =
           (Some 0, Some (p @ drop (length p) buf), Some (of_nat (length p)),
            wr\<lparr>uart_rx := rest\<rparr>)"
proof -
  let ?len = "of_nat (length p) :: u16"
  have len: "length p = unat ?len"
    using assms(1) by (simp add: unat_of_nat)
  have le: "?len \<le> buffer_size"
    using assms(2) len by (simp add: word_le_nat_alt)
  have rx: "uart_rx wr =
      map Rx (link_header ?len @ p @ [foldl crc8_update 0 (link_header ?len @ p), LINK_STOP_BYTE])
        @ rest"
    using assms(5) len by (simp add: build_frame_closed)
  have st: "store_payload (unat buffer_size) 0 p buf = p @ drop (length p) buf"
    using assms(2,3) by (simp add: store_payload_closed min_def)
  have "link_receive_loop buffer_size (link_rx_init buf ol) (uart_rx wr) =
         (Some 0,
          (link_rx_init buf ol)
            \<lparr>buffer := store_payload (unat buffer_size) 0 p (buffer (link_rx_init buf ol)),
              full_crc_calc := foldl crc8_update 0 (link_header ?len @ p),
              hdr := take 3 (link_header ?len), length_v := ?len, idx := ?len,
              state := ST_STOP, out_len := ?len\<rparr>, rest)"
    unfolding rx using len le by (intro rx_frame_accept) (simp_all add: link_rx_init_def)
  then show ?thesis
    using assms(4) st by (simp add: link_receive_frame_def link_rx_init_def)
qed

text \<open>
  Claim C2. For every payload \<open>p\<close> of 0 to 65535 bytes: when \<^verbatim>\<open>link_send_frame\<close>
  returns 0, the bytes it put on the wire, fed to \<^verbatim>\<open>link_receive_frame\<close> with a
  buffer of capacity at least the payload length, make it return 0 with
  \<^verbatim>\<open>*out_len\<close> the payload length and the payload in the first bytes of the buffer
  (the rest of the buffer is untouched, and the input after the frame is not consumed).
\<close>

theorem link_roundtrip:
  assumes "length p \<le> 65535"
    and "fst (link_send_frame (Some p) (of_nat (length p)) ws) = 0"
    and "length p \<le> unat buffer_size" and "unat buffer_size \<le> length buf"
    and "s_uart_installed wr"
    and "uart_rx wr =
           map Rx (drop (length (uart_tx ws))
                     (uart_tx (snd (link_send_frame (Some p) (of_nat (length p)) ws)))) @ rest"
  shows "link_receive_frame (Some buf) buffer_size (Some ol) wr =
           (Some 0, Some (p @ drop (length p) buf), Some (of_nat (length p)),
            wr\<lparr>uart_rx := rest\<rparr>)"
proof -
  let ?len = "of_nat (length p) :: u16"
  have len: "length p = unat ?len"
    using assms(1) by (simp add: unat_of_nat)
  have "link_send_frame (Some p) ?len ws = (0, snd (link_send_frame (Some p) ?len ws))"
    using assms(2) by (simp add: prod_eq_iff)
  then have "uart_tx (snd (link_send_frame (Some p) ?len ws)) =
             uart_tx ws @ link_build_frame (Some p) ?len"
    using len by (rule link_send_frame_ok)
  with assms(6) have "uart_rx wr = map Rx (link_build_frame (Some p) ?len) @ rest"
    by simp
  with assms(1,3,4,5) show ?thesis
    by (rule link_receive_frame_accepts)
qed

theorem link_roundtrip_witness:
  "length [1, 2, 3 :: u8] \<le> 65535 \<and>
   fst (link_send_frame (Some [1, 2, 3]) (of_nat (length [1, 2, 3 :: u8])) world_init) = 0 \<and>
   length [1, 2, 3 :: u8] \<le> unat (4 :: u16) \<and> unat (4 :: u16) \<le> length [0, 0, 0, 0 :: u8] \<and>
   s_uart_installed world_init \<and>
   link_receive_frame (Some [0, 0, 0, 0]) 4 (Some 0)
     (world_init\<lparr>uart_rx :=
        map Rx (uart_tx (snd (link_send_frame (Some [1, 2, 3])
                                (of_nat (length [1, 2, 3 :: u8])) world_init)))\<rparr>) =
     (Some 0, Some [1, 2, 3, 0], Some 3, world_init\<lparr>uart_rx := []\<rparr>)"
proof -
  have sent: "fst (link_send_frame (Some [1, 2, 3]) (of_nat (length [1, 2, 3 :: u8])) world_init) = 0"
    by code_simp
  show ?thesis
    using link_roundtrip [where p = "[1, 2, 3]" and ws = world_init and buffer_size = 4
        and buf = "[0, 0, 0, 0]" and rest = "[]" and ol = 0
        and wr = "world_init\<lparr>uart_rx :=
           map Rx (uart_tx (snd (link_send_frame (Some [1, 2, 3])
                                   (of_nat (length [1, 2, 3 :: u8])) world_init)))\<rparr>"]
      sent
    by (simp add: world_init_def)
qed

section \<open>Link layer: a frame longer than the receive buffer\<close>

text \<open>
  Claim C5. Take a frame with a valid header whose declared payload length exceeds
  \<open>buffer_size\<close>, and any byte \<open>c\<close> in the place of the full CRC, the valid one
  included. Started at the frame, the receive loop consumes the header, the whole
  payload and \<open>c\<close>, and goes on with the input after them in the state
  \<^verbatim>\<open>ST_WAIT_START\<close>: every payload byte has been folded into \<open>full_crc_calc\<close>,
  only the first \<open>buffer_size\<close> of them have been written to the buffer, and the
  function has not returned. With the frame that \<^verbatim>\<open>link_send_frame\<close> builds, both
  CRCs valid, as the only input, \<^verbatim>\<open>link_receive_frame\<close> consumes it all and does not
  return: the frame is never handed to the caller.
\<close>

theorem link_receive_rejects_long_frame:
  assumes "length p \<le> 65535" and "unat buffer_size < length p"
    and "unat buffer_size \<le> length buf"
  shows "link_receive_loop buffer_size (link_rx_init buf ol)
           (map Rx (link_header (of_nat (length p)) @ p @ [c]) @ rest) =
         link_receive_loop buffer_size
           \<lparr>state = ST_WAIT_START, length_v = of_nat (length p), idx = of_nat (length p),
            hdr = take 3 (link_header (of_nat (length p))),
            full_crc_calc = foldl crc8_update 0 (link_header (of_nat (length p)) @ p),
            buffer = take (unat buffer_size) p @ drop (unat buffer_size) buf,
            out_len = ol\<rparr> rest
       \<and> (s_uart_installed w \<longrightarrow>
            link_receive_frame (Some buf) buffer_size (Some ol)
              (w\<lparr>uart_rx := map Rx (link_build_frame (Some p) (of_nat (length p)))\<rparr>) =
            (None, Some (take (unat buffer_size) p @ drop (unat buffer_size) buf), Some ol,
             w\<lparr>uart_rx := []\<rparr>))"
proof -
  let ?len = "of_nat (length p) :: u16"
  let ?l' = "\<lparr>state = ST_WAIT_START, length_v = ?len, idx = ?len,
            hdr = take 3 (link_header ?len),
            full_crc_calc = foldl crc8_update 0 (link_header ?len @ p),
            buffer = take (unat buffer_size) p @ drop (unat buffer_size) buf,
            out_len = ol\<rparr>"
  have len: "length p = unat ?len"
    using assms(1) by (simp add: unat_of_nat)
  have lt: "buffer_size < ?len"
    using assms(2) len by (simp add: word_less_nat_alt)
  have st: "store_payload (unat buffer_size) 0 p buf =
            take (unat buffer_size) p @ drop (unat buffer_size) buf"
    using assms(2,3) by (simp add: store_payload_closed min_def)
  have a: "link_receive_loop buffer_size (link_rx_init buf ol)
             (map Rx (link_header ?len @ p @ [c]) @ rest) =
           link_receive_loop buffer_size ?l' rest" for c rest
    using rx_frame_too_long [of "link_rx_init buf ol" p ?len buffer_size c rest] len lt st
    by (simp add: link_rx_init_def)
  have "link_receive_loop buffer_size (link_rx_init buf ol)
          (map Rx (link_build_frame (Some p) ?len)) =
        link_receive_loop buffer_size ?l' [Rx LINK_STOP_BYTE]"
    using a [of "foldl crc8_update 0 (link_header ?len @ p)" "[Rx LINK_STOP_BYTE]"] assms(1)
    by (simp add: link_build_frame_eq_link_frame link_frame_def Let_def)
  also have "\<dots> = (None, ?l', [])"
    by (simp add: link_rx_switch_def LINK_STOP_BYTE_def LINK_START_BYTE_def)
  finally have b: "link_receive_loop buffer_size (link_rx_init buf ol)
          (map Rx (link_build_frame (Some p) ?len)) = (None, ?l', [])" .
  from a [of c rest] b show ?thesis
    by (simp add: link_receive_frame_def)
qed

theorem link_receive_rejects_long_frame_witness:
  "length [1, 2, 3 :: u8] \<le> 65535 \<and> unat (2 :: u16) < length [1, 2, 3 :: u8] \<and>
   unat (2 :: u16) \<le> length [9, 9 :: u8] \<and> s_uart_installed world_init \<and>
   link_receive_frame (Some [9, 9]) 2 (Some 0)
     (world_init\<lparr>uart_rx := map Rx (link_build_frame (Some [1, 2, 3]) (of_nat (length [1, 2, 3 :: u8])))\<rparr>) =
   (None, Some [1, 2], Some 0, world_init\<lparr>uart_rx := []\<rparr>)"
  using link_receive_rejects_long_frame [of "[1, 2, 3]" 2 "[9, 9]" 0 0 "[]" world_init]
  by (simp add: world_init_def)

section \<open>Link layer: every returned frame fits the buffer\<close>

lemma link_rx_switch_buffer_length:
  "length (buffer (snd (link_rx_switch bs byte l))) = length (buffer l)"
  by (cases l; cases "state l") (simp_all add: link_rx_switch_def Let_def)

lemma link_rx_switch_stop:
  assumes "state l = ST_STOP \<longrightarrow> length_v l \<le> bs"
  shows "state (snd (link_rx_switch bs byte l)) = ST_STOP \<longrightarrow>
         length_v (snd (link_rx_switch bs byte l)) \<le> bs"
  using assms
  by (cases l; cases "state l") (simp_all add: link_rx_switch_def Let_def)

lemma link_rx_switch_return:
  assumes "state l = ST_STOP \<longrightarrow> length_v l \<le> bs"
    and "fst (link_rx_switch bs byte l) = Some rc"
  shows "rc = 0 \<and> out_len (snd (link_rx_switch bs byte l)) \<le> bs"
  using assms
  by (cases l; cases "state l") (simp_all add: link_rx_switch_def Let_def split: if_splits)

lemma link_receive_loop_invariant:
  assumes "state l = ST_STOP \<longrightarrow> length_v l \<le> bs"
  shows "length (buffer (fst (snd (link_receive_loop bs l inp)))) = length (buffer l) \<and>
         (fst (link_receive_loop bs l inp) = Some 0 \<longrightarrow>
            out_len (fst (snd (link_receive_loop bs l inp))) \<le> bs)"
  using assms
proof (induction inp arbitrary: l)
  case Nil
  then show ?case by simp
next
  case (Cons x inp)
  show ?case
  proof (cases x)
    case RxFail
    then show ?thesis by simp
  next
    case (Rx byte)
    obtain r1 l1 where s: "link_rx_switch bs byte l = (r1, l1)"
      by (cases "link_rx_switch bs byte l")
    have b: "length (buffer l1) = length (buffer l)"
      using link_rx_switch_buffer_length [of bs byte l] s by simp
    have st: "state l1 = ST_STOP \<longrightarrow> length_v l1 \<le> bs"
      using link_rx_switch_stop [OF Cons.prems, of byte] s by simp
    show ?thesis
    proof (cases r1)
      case None
      with s Rx have "link_receive_loop bs l (x # inp) = link_receive_loop bs l1 inp"
        by simp
      with Cons.IH [OF st] b show ?thesis by simp
    next
      case (Some rc)
      with link_rx_switch_return [OF Cons.prems, of byte rc] s
      have "rc = 0 \<and> out_len l1 \<le> bs" by simp
      with Some s Rx b show ?thesis by simp
    qed
  qed
qed

text \<open>
  Whatever the input, a frame that \<^verbatim>\<open>link_receive_frame\<close> returns is no longer than
  the buffer capacity it was given, and the buffer keeps its size.
\<close>

lemma link_receive_frame_length_bound:
  assumes "link_receive_frame (Some buf) bs (Some ol) w = (Some 0, Some buf', Some n, w')"
  shows "n \<le> bs \<and> length buf' = length buf"
proof -
  from assms have inst: "s_uart_installed w"
    by (auto simp: link_receive_frame_def split: if_splits)
  have i: "state (link_rx_init buf ol) = ST_STOP \<longrightarrow> length_v (link_rx_init buf ol) \<le> bs"
    by (simp add: link_rx_init_def)
  from assms inst have
    "fst (link_receive_loop bs (link_rx_init buf ol) (uart_rx w)) = Some 0"
    "buf' = buffer (fst (snd (link_receive_loop bs (link_rx_init buf ol) (uart_rx w))))"
    "n = out_len (fst (snd (link_receive_loop bs (link_rx_init buf ol) (uart_rx w))))"
    by (simp_all add: link_receive_frame_def split_beta)
  with link_receive_loop_invariant [OF i, of "uart_rx w"] show ?thesis
    by (simp add: link_rx_init_def)
qed

section \<open>Transport layer: what the primitives leave unchanged\<close>

lemma xSemaphoreTake_fields [simp]:
  "pending_queue (snd (xSemaphoreTake w)) = pending_queue w"
  "current_counter (snd (xSemaphoreTake w)) = current_counter w"
  "uart_tx (snd (xSemaphoreTake w)) = uart_tx w"
  "uart_rx (snd (xSemaphoreTake w)) = uart_rx w"
  "uart_write_plan (snd (xSemaphoreTake w)) = uart_write_plan w"
  "heap_plan (snd (xSemaphoreTake w)) = heap_plan w"
  "invoked (snd (xSemaphoreTake w)) = invoked w"
  "rx_buffer (snd (xSemaphoreTake w)) = rx_buffer w"
  "rx_len (snd (xSemaphoreTake w)) = rx_len w"
  "function_registry (snd (xSemaphoreTake w)) = function_registry w"
  "registry_count (snd (xSemaphoreTake w)) = registry_count w"
  "s_uart_installed (snd (xSemaphoreTake w)) = s_uart_installed w"
  by (simp_all add: xSemaphoreTake_def split: list.splits)

lemma pvPortMalloc_fields [simp]:
  "pending_queue (snd (pvPortMalloc w)) = pending_queue w"
  "current_counter (snd (pvPortMalloc w)) = current_counter w"
  "uart_tx (snd (pvPortMalloc w)) = uart_tx w"
  "uart_rx (snd (pvPortMalloc w)) = uart_rx w"
  "uart_write_plan (snd (pvPortMalloc w)) = uart_write_plan w"
  "take_plan (snd (pvPortMalloc w)) = take_plan w"
  "invoked (snd (pvPortMalloc w)) = invoked w"
  "rx_buffer (snd (pvPortMalloc w)) = rx_buffer w"
  "rx_len (snd (pvPortMalloc w)) = rx_len w"
  "function_registry (snd (pvPortMalloc w)) = function_registry w"
  "registry_count (snd (pvPortMalloc w)) = registry_count w"
  "s_uart_installed (snd (pvPortMalloc w)) = s_uart_installed w"
  by (simp_all add: pvPortMalloc_def split: list.splits)

lemma physical_send_fields [simp]:
  "pending_queue (snd (physical_send d n w)) = pending_queue w"
  "current_counter (snd (physical_send d n w)) = current_counter w"
  "uart_rx (snd (physical_send d n w)) = uart_rx w"
  "heap_plan (snd (physical_send d n w)) = heap_plan w"
  "take_plan (snd (physical_send d n w)) = take_plan w"
  "invoked (snd (physical_send d n w)) = invoked w"
  "rx_buffer (snd (physical_send d n w)) = rx_buffer w"
  "rx_len (snd (physical_send d n w)) = rx_len w"
  "function_registry (snd (physical_send d n w)) = function_registry w"
  "registry_count (snd (physical_send d n w)) = registry_count w"
  "s_uart_installed (snd (physical_send d n w)) = s_uart_installed w"
  by (simp_all add: physical_send_def uart_write_bytes_def split: option.splits list.splits)

lemma link_send_frame_fields [simp]:
  "pending_queue (snd (link_send_frame p n w)) = pending_queue w"
  "current_counter (snd (link_send_frame p n w)) = current_counter w"
  "uart_rx (snd (link_send_frame p n w)) = uart_rx w"
  "take_plan (snd (link_send_frame p n w)) = take_plan w"
  "invoked (snd (link_send_frame p n w)) = invoked w"
  "rx_buffer (snd (link_send_frame p n w)) = rx_buffer w"
  "rx_len (snd (link_send_frame p n w)) = rx_len w"
  "function_registry (snd (link_send_frame p n w)) = function_registry w"
  "registry_count (snd (link_send_frame p n w)) = registry_count w"
  "s_uart_installed (snd (link_send_frame p n w)) = s_uart_installed w"
  by (simp_all add: link_send_frame_def Let_def split_beta)

lemma send_error_response_fields [simp]:
  "pending_queue (send_error_response c e w) = pending_queue w"
  "current_counter (send_error_response c e w) = current_counter w"
  "invoked (send_error_response c e w) = invoked w"
  by (simp_all add: send_error_response_def Let_def)

section \<open>Transport layer: a frame reaches the dispatch\<close>

text \<open>
  One pass of the receiver loop on a wire that starts with the frame of a message of 2
  to 256 bytes: the message is in \<^verbatim>\<open>rx_buffer\<close>, its length in \<^verbatim>\<open>rx_len\<close>, the
  input after the frame is left, and the switch runs.
\<close>

lemma transport_receiver_task_frame:
  assumes "2 \<le> length msg" and "length msg \<le> 256" and "length (rx_buffer w) = 256"
    and "s_uart_installed w"
    and "uart_rx w = map Rx (link_build_frame (Some msg) (of_nat (length msg))) @ rest"
  shows "transport_receiver_task w =
           receiver_dispatch
             (w\<lparr>uart_rx := rest, rx_buffer := msg @ drop (length msg) (rx_buffer w),
                rx_len := of_nat (length msg)\<rparr>)"
proof -
  have r: "link_receive_frame (Some (rx_buffer w)) 256 (Some (rx_len w)) w =
           (Some 0, Some (msg @ drop (length msg) (rx_buffer w)), Some (of_nat (length msg)),
            w\<lparr>uart_rx := rest\<rparr>)"
    using assms by (intro link_receive_frame_accepts) simp_all
  have "unat (of_nat (length msg) :: u16) = length msg"
    using assms(2) by (simp add: unat_of_nat)
  with assms(1) have "\<not> (of_nat (length msg) :: u16) < 2"
    by (simp add: word_less_nat_alt)
  with r show ?thesis
    by (simp add: transport_receiver_task_def Let_def)
qed

section \<open>Transport layer: registration\<close>

text \<open>
  Claim C7, as the code has it. \<^verbatim>\<open>transport_register_function\<close> returns a negative
  value, and leaves the whole state as it was, whenever the name pointer is
  \<^verbatim>\<open>NULL\<close>, or the callback is \<^verbatim>\<open>NULL\<close>, or the registry already holds
  \<^verbatim>\<open>MAX_FUNCTIONS\<close> entries.
\<close>

theorem transport_register_function_rejects:
  assumes "nm = None \<or> cb = None \<or> registry_count w \<ge> MAX_FUNCTIONS"
  shows "fst (transport_register_function nm cb w) < 0 \<and>
         snd (transport_register_function nm cb w) = w"
  using assms
  by (auto simp: transport_register_function_def split: option.splits)

theorem transport_register_function_rejects_witness:
  "fst (transport_register_function None (Some rpc_echo) world_init) < 0 \<and>
   snd (transport_register_function None (Some rpc_echo) world_init) = world_init"
  using transport_register_function_rejects [of None "Some rpc_echo" world_init]
  by simp

text \<open>
  The claim as the specification words it also lets the registration fail for an empty
  name. The code tests the pointer only: the empty string is registered, the call
  returns 0 and the count goes from 0 to 1.
\<close>

theorem transport_register_function_empty_name_counterexample:
  "strlen [] = 0 \<and>
   fst (transport_register_function (Some []) (Some rpc_echo) world_init) = 0 \<and>
   registry_count world_init = 0 \<and>
   registry_count (snd (transport_register_function (Some []) (Some rpc_echo) world_init)) = 1"
  by (simp add: transport_register_function_def world_init_def pvPortMalloc_def strlen_def
      MAX_FUNCTIONS_def Let_def)

text \<open>
  A successful registration writes the slot with index \<^verbatim>\<open>registry_count\<close> and
  touches no other slot; no name is compared, so a name that is already registered is
  stored once more, behind the earlier entry.
\<close>

lemma transport_register_function_appends:
  assumes "transport_register_function (Some s) (Some f) w = (0, w')"
  shows "registry_count w' = registry_count w + 1 \<and>
         (\<forall>m. m \<noteq> registry_count w \<longrightarrow> function_registry w' ! m = function_registry w ! m) \<and>
         (registry_count w < length (function_registry w) \<longrightarrow>
            callback (function_registry w' ! registry_count w) = Some f \<and>
            takeWhile (\<lambda>c. c \<noteq> 0) (name (function_registry w' ! registry_count w)) =
              takeWhile (\<lambda>c. c \<noteq> 0) s)"
proof -
  obtain ok w1 where m: "pvPortMalloc w = (ok, w1)" by (cases "pvPortMalloc w")
  have f1: "function_registry w1 = function_registry w" "registry_count w1 = registry_count w"
    using pvPortMalloc_fields(10,11) [of w] m by simp_all
  have l: "length (take (strlen s) s) = strlen s"
    using length_takeWhile_le [of "\<lambda>c. c \<noteq> 0" s] by (simp add: strlen_def)
  have t: "take (strlen s) s = takeWhile (\<lambda>c. c \<noteq> 0) s"
    unfolding strlen_def by (induction s) auto
  have "drop n (replicate (n + 1) (0 :: u8)) = [0]" for n
    by (simp only: drop_replicate) simp
  then have "memcpy (replicate (strlen s + 1) 0) 0 s (strlen s) = take (strlen s) s @ [0]"
    by (simp only: memcpy_def take_0 append_Nil add_0)
  then have cp: "(memcpy (0 # replicate (strlen s) 0) 0 s (strlen s))[strlen s := 0] =
             takeWhile (\<lambda>c. c \<noteq> 0) s @ [0]"
    using l by (simp add: list_update_append t)
  have c: "takeWhile (\<lambda>c. c \<noteq> 0) (takeWhile (\<lambda>c. c \<noteq> 0) s @ [0 :: u8]) =
           takeWhile (\<lambda>c. c \<noteq> 0) s"
    by (simp add: takeWhile_tail)
  from assms m show ?thesis
    by (auto simp: transport_register_function_def Let_def f1 cp c split: if_splits)
qed

section \<open>Transport layer: lookup\<close>

lemma find_function_loop_Some:
  "find_function_loop nm name_len w i = Some k \<Longrightarrow>
   i \<le> k \<and> k < registry_count w \<and>
   strlen (name (function_registry w ! k)) = unat name_len \<and>
   strncmp (name (function_registry w ! k)) nm (unat name_len) = 0 \<and>
   (\<forall>m. i \<le> m \<and> m < k \<longrightarrow>
      \<not> (strlen (name (function_registry w ! m)) = unat name_len \<and>
         strncmp (name (function_registry w ! m)) nm (unat name_len) = 0))"
proof (induction nm name_len w i rule: find_function_loop.induct)
  case (1 nm name_len w i)
  show ?case
  proof (cases "i < registry_count w \<and>
      \<not> (strlen (name (function_registry w ! i)) = unat name_len \<and>
         strncmp (name (function_registry w ! i)) nm (unat name_len) = 0)")
    case True
    with "1.prems" have r: "find_function_loop nm name_len w (i + 1) = Some k"
      by (subst (asm) find_function_loop.simps) (auto split: if_splits)
    from True have "i + 1 \<le> k \<and> k < registry_count w \<and>
        strlen (name (function_registry w ! k)) = unat name_len \<and>
        strncmp (name (function_registry w ! k)) nm (unat name_len) = 0 \<and>
        (\<forall>m. i + 1 \<le> m \<and> m < k \<longrightarrow>
          \<not> (strlen (name (function_registry w ! m)) = unat name_len \<and>
             strncmp (name (function_registry w ! m)) nm (unat name_len) = 0))"
      by (intro "1.IH" r) auto
    with True show ?thesis
      by (metis Suc_eq_plus1 Suc_leI le_neq_implies_less less_or_eq_imp_le add_leD1)
  next
    case False
    with "1.prems" show ?thesis
      by (subst (asm) find_function_loop.simps) (auto split: if_splits)
  qed
qed

lemma find_function_loop_None:
  "find_function_loop nm name_len w i = None \<Longrightarrow> i \<le> m \<Longrightarrow> m < registry_count w \<Longrightarrow>
   \<not> (strlen (name (function_registry w ! m)) = unat name_len \<and>
      strncmp (name (function_registry w ! m)) nm (unat name_len) = 0)"
proof (induction nm name_len w i rule: find_function_loop.induct)
  case (1 nm name_len w i)
  from "1.prems"(2,3) have lt: "i < registry_count w" by simp
  from "1.prems"(1) lt have
    no: "\<not> (strlen (name (function_registry w ! i)) = unat name_len \<and>
          strncmp (name (function_registry w ! i)) nm (unat name_len) = 0)"
    and r: "find_function_loop nm name_len w (i + 1) = None"
    by (subst (asm) find_function_loop.simps; simp split: if_splits)+
  show ?case
  proof (cases "m = i")
    case True
    with no show ?thesis by simp
  next
    case False
    with "1.prems"(2) have "i + 1 \<le> m" by simp
    with lt no r "1.prems"(3) show ?thesis
      by (intro "1.IH") auto
  qed
qed

lemma find_function_loop_no_match:
  assumes "\<forall>m < registry_count w.
             \<not> (strlen (name (function_registry w ! m)) = unat name_len \<and>
                strncmp (name (function_registry w ! m)) nm (unat name_len) = 0)"
  shows "find_function_loop nm name_len w i = None"
proof (cases "find_function_loop nm name_len w i")
  case None
  then show ?thesis .
next
  case (Some k)
  from find_function_loop_Some [OF Some] assms show ?thesis by blast
qed

text \<open>
  Claim C10. Let two entries of the registry, at the indices \<open>i < j\<close>, carry the same
  name, and let a lookup ask for that name (the test of \<^verbatim>\<open>find_function\<close> holds at
  \<open>j\<close>). Then the lookup returns an entry, at an index \<open>k\<close> that is at most \<open>i\<close>: the
  first index, from 0 upward, at which the test holds. The entry registered later is
  never returned.
\<close>

theorem find_function_first_match:
  assumes "i < j" and "j < registry_count w"
    and "name (function_registry w ! i) = name (function_registry w ! j)"
    and "strlen (name (function_registry w ! j)) = unat name_len"
    and "strncmp (name (function_registry w ! j)) nm (unat name_len) = 0"
  shows "\<exists>k. find_function nm name_len w = Some k \<and> k \<le> i \<and> k \<noteq> j \<and>
           strlen (name (function_registry w ! k)) = unat name_len \<and>
           strncmp (name (function_registry w ! k)) nm (unat name_len) = 0 \<and>
           (\<forall>m < k. \<not> (strlen (name (function_registry w ! m)) = unat name_len \<and>
                        strncmp (name (function_registry w ! m)) nm (unat name_len) = 0))"
proof (cases "find_function nm name_len w")
  case None
  then have "find_function_loop nm name_len w 0 = None"
    by (simp add: find_function_def)
  from find_function_loop_None [OF this, of j] assms(2,4,5) show ?thesis by simp
next
  case (Some k)
  then have "find_function_loop nm name_len w 0 = Some k"
    by (simp add: find_function_def)
  from find_function_loop_Some [OF this] have f: "k < registry_count w"
    "strlen (name (function_registry w ! k)) = unat name_len"
    "strncmp (name (function_registry w ! k)) nm (unat name_len) = 0"
    "\<forall>m < k. \<not> (strlen (name (function_registry w ! m)) = unat name_len \<and>
                strncmp (name (function_registry w ! m)) nm (unat name_len) = 0)"
    by simp_all
  have "k \<le> i"
  proof (rule ccontr)
    assume "\<not> k \<le> i"
    then have "i < k" by simp
    with f(4) assms(3,4,5) show False by auto
  qed
  with Some f assms(1) show ?thesis by auto
qed

theorem find_function_first_match_witness:
  "(0 :: nat) < 1 \<and> 1 < registry_count world_sum_twice \<and>
   name (function_registry world_sum_twice ! 0) = name (function_registry world_sum_twice ! 1) \<and>
   strlen (name (function_registry world_sum_twice ! 1)) = unat (3 :: u8) \<and>
   strncmp (name (function_registry world_sum_twice ! 1)) [0x73, 0x75, 0x6D, 0x00, 0x01] (unat (3 :: u8)) = 0 \<and>
   find_function [0x73, 0x75, 0x6D, 0x00, 0x01] 3 world_sum_twice = Some 0"
proof -
  have a: "1 < registry_count world_sum_twice" by code_simp
  have b: "name (function_registry world_sum_twice ! 0) = name (function_registry world_sum_twice ! 1)"
    by code_simp
  have c: "strlen (name (function_registry world_sum_twice ! 1)) = unat (3 :: u8)" by code_simp
  have d: "strncmp (name (function_registry world_sum_twice ! 1)) [0x73, 0x75, 0x6D, 0x00, 0x01] (unat (3 :: u8)) = 0"
    by code_simp
  from find_function_first_match [where i = 0, OF _ a b c d] a b c d show ?thesis
    by auto
qed

section \<open>Transport layer: a call while another is pending\<close>

text \<open>
  Claim C3. While a call is pending (\<^verbatim>\<open>pending_queue\<close> is not \<^verbatim>\<open>NULL\<close>), an
  invocation of \<^verbatim>\<open>transport_call\<close> returns a negative value and leaves the outputs,
  the pending queue and the call counter as they were. It reaches neither the link
  layer nor the wait: the wire, the driver's and the heap's coming results and the
  unread input are unchanged.
\<close>

theorem transport_call_rejects_when_pending:
  assumes "pending_queue w \<noteq> None"
  shows "case transport_call nm args args_len outp timeout w of
           (r, outp', w') \<Rightarrow>
             r < 0 \<and> outp' = outp \<and>
             pending_queue w' = pending_queue w \<and> current_counter w' = current_counter w \<and>
             uart_tx w' = uart_tx w \<and> uart_write_plan w' = uart_write_plan w \<and>
             heap_plan w' = heap_plan w \<and> uart_rx w' = uart_rx w"
proof -
  obtain ok w1 where t: "xSemaphoreTake w = (ok, w1)" by (cases "xSemaphoreTake w")
  have "pending_queue w1 = pending_queue w" "current_counter w1 = current_counter w"
    "uart_tx w1 = uart_tx w" "uart_write_plan w1 = uart_write_plan w"
    "heap_plan w1 = heap_plan w" "uart_rx w1 = uart_rx w"
    using xSemaphoreTake_fields [of w] t by simp_all
  then show ?thesis
    using assms t
    by (cases nm; cases outp; cases ok) (simp_all add: transport_call_def)
qed

theorem transport_call_rejects_when_pending_witness:
  "pending_queue (world_init\<lparr>pending_queue := Some None, current_counter := 7\<rparr>) \<noteq> None \<and>
   fst (transport_call (Some name_sum) (Some [1, 2]) 2
          (Some \<lparr>response = None, resp_len = 0, error_code = 0\<rparr>) 3
          (world_init\<lparr>pending_queue := Some None, current_counter := 7\<rparr>)) = - 3 \<and>
   (case transport_call (Some name_sum) (Some [1, 2]) 2
          (Some \<lparr>response = None, resp_len = 0, error_code = 0\<rparr>) 3
          (world_init\<lparr>pending_queue := Some None, current_counter := 7\<rparr>) of
      (r, outp', w') \<Rightarrow>
        r < 0 \<and> outp' = Some \<lparr>response = None, resp_len = 0, error_code = 0\<rparr> \<and>
        pending_queue w' = Some None \<and> current_counter w' = 7 \<and> uart_tx w' = [])"
proof -
  have "fst (transport_call (Some name_sum) (Some [1, 2]) 2
          (Some \<lparr>response = None, resp_len = 0, error_code = 0\<rparr>) 3
          (world_init\<lparr>pending_queue := Some None, current_counter := 7\<rparr>)) = - 3"
    by (simp add: transport_call_def xSemaphoreTake_def world_init_def)
  with transport_call_rejects_when_pending
         [where w = "world_init\<lparr>pending_queue := Some None, current_counter := 7\<rparr>"
            and nm = "Some name_sum" and args = "Some [1, 2]" and args_len = 2
            and outp = "Some \<lparr>response = None, resp_len = 0, error_code = 0\<rparr>"
            and timeout = 3]
  show ?thesis
    by (simp add: world_init_def split: prod.splits)
qed

section \<open>Transport layer: replies and the pending call\<close>

lemma receiver_dispatch_other_counter:
  assumes "rx_buffer w ! 0 = MSG_TYPE_RESPONSE \<or> rx_buffer w ! 0 = MSG_TYPE_ERROR"
    and "rx_buffer w ! 1 \<noteq> current_counter w"
  shows "receiver_dispatch w = snd (xSemaphoreTake w)"
proof -
  have ty: "rx_buffer w ! 0 \<noteq> MSG_TYPE_REQUEST"
    using assms(1) by (auto simp: MSG_TYPE_REQUEST_def MSG_TYPE_RESPONSE_def MSG_TYPE_ERROR_def)
  have "receiver_dispatch w = receiver_reply (rx_buffer w ! 0) (rx_buffer w ! 1) w"
    using assms(1) ty by (auto simp: receiver_dispatch_def Let_def)
  moreover have "receiver_reply ty c w = snd (xSemaphoreTake w)" if "c \<noteq> current_counter w" for ty c
    using that by (simp add: receiver_reply_def Let_def)
  ultimately show ?thesis
    using assms(2) by simp
qed

text \<open>
  Claim C4. Let the frame of a Response or Error message arrive while the call counter
  is \<open>N\<close> (\<^verbatim>\<open>current_counter\<close>). When the counter byte of the message is not \<open>N\<close>,
  the pass of the receiver loop leaves the pending queue and the call counter as they
  were, sends nothing, allocates nothing and invokes no callback: the message is
  dropped. Hence a pass that changes the pending queue, that is, delivers to the waiting
  caller, has received a message whose counter byte is \<open>N\<close>.
\<close>

theorem receiver_delivers_only_matching_counter:
  assumes "2 \<le> length msg" and "length msg \<le> 256" and "length (rx_buffer w) = 256"
    and "s_uart_installed w"
    and "uart_rx w = map Rx (link_build_frame (Some msg) (of_nat (length msg))) @ rest"
    and "msg ! 0 = MSG_TYPE_RESPONSE \<or> msg ! 0 = MSG_TYPE_ERROR"
  shows "(msg ! 1 \<noteq> current_counter w \<longrightarrow>
            pending_queue (transport_receiver_task w) = pending_queue w \<and>
            current_counter (transport_receiver_task w) = current_counter w \<and>
            uart_tx (transport_receiver_task w) = uart_tx w \<and>
            heap_plan (transport_receiver_task w) = heap_plan w \<and>
            invoked (transport_receiver_task w) = invoked w \<and>
            uart_rx (transport_receiver_task w) = rest) \<and>
         (pending_queue (transport_receiver_task w) \<noteq> pending_queue w \<longrightarrow>
            msg ! 1 = current_counter w)"
proof -
  let ?w2 = "w\<lparr>uart_rx := rest, rx_buffer := msg @ drop (length msg) (rx_buffer w),
               rx_len := of_nat (length msg)\<rparr>"
  have t: "transport_receiver_task w = receiver_dispatch ?w2"
    using assms(1-5) by (rule transport_receiver_task_frame)
  have b: "rx_buffer ?w2 ! 0 = msg ! 0" "rx_buffer ?w2 ! 1 = msg ! 1"
    using assms(1) by (auto simp: nth_append)
  have "receiver_dispatch ?w2 = snd (xSemaphoreTake ?w2)" if "msg ! 1 \<noteq> current_counter w"
    using that assms(6) b by (intro receiver_dispatch_other_counter) simp_all
  then show ?thesis
    unfolding t by (cases "msg ! 1 = current_counter w") simp_all
qed

theorem receiver_delivers_only_matching_counter_witness:
  "2 \<le> length [0x16, 4, 0x33 :: u8] \<and> length [0x16, 4, 0x33 :: u8] \<le> 256 \<and>
   length (rx_buffer world_init) = 256 \<and> s_uart_installed world_init \<and>
   ([0x16, 4, 0x33 :: u8] ! 0 = MSG_TYPE_RESPONSE \<or> [0x16, 4, 0x33 :: u8] ! 0 = MSG_TYPE_ERROR) \<and>
   [0x16, 4, 0x33 :: u8] ! 1 \<noteq> 5 \<and>
   pending_queue (transport_receiver_task
     (world_init\<lparr>pending_queue := Some None, current_counter := 5,
        uart_rx := map Rx (link_build_frame (Some [0x16, 4, 0x33]) 3)\<rparr>)) = Some None \<and>
   current_counter (transport_receiver_task
     (world_init\<lparr>pending_queue := Some None, current_counter := 5,
        uart_rx := map Rx (link_build_frame (Some [0x16, 4, 0x33]) 3)\<rparr>)) = 5 \<and>
   uart_tx (transport_receiver_task
     (world_init\<lparr>pending_queue := Some None, current_counter := 5,
        uart_rx := map Rx (link_build_frame (Some [0x16, 4, 0x33]) 3)\<rparr>)) = []"
  using receiver_delivers_only_matching_counter
    [where msg = "[0x16, 4, 0x33]" and rest = "[]"
       and w = "world_init\<lparr>pending_queue := Some None, current_counter := 5,
                  uart_rx := map Rx (link_build_frame (Some [0x16, 4, 0x33]) 3)\<rparr>"]
  by (simp add: world_init_def MSG_TYPE_RESPONSE_def)

section \<open>Transport layer: an Error message without its code byte\<close>

lemma receiver_dispatch_short_error:
  assumes "rx_buffer w ! 0 = MSG_TYPE_ERROR" and "rx_len w = 2"
    and "rx_buffer w ! 1 = current_counter w"
    and "pending_queue w = Some None" and "fst (pvPortMalloc w)"
  shows "pending_queue (receiver_dispatch w) = Some (Some [0, 0, ERR_INTERNAL])"
proof -
  have ty: "rx_buffer w ! 0 \<noteq> MSG_TYPE_REQUEST"
    using assms(1) by (auto simp: MSG_TYPE_REQUEST_def MSG_TYPE_ERROR_def)
  have d: "receiver_dispatch w = receiver_reply MSG_TYPE_ERROR (current_counter w) w"
    using assms(1,3) ty by (auto simp: receiver_dispatch_def Let_def)
  obtain ok w2 where m: "pvPortMalloc (snd (xSemaphoreTake w)) = (ok, w2)"
    by (cases "pvPortMalloc (snd (xSemaphoreTake w))")
  have "fst (pvPortMalloc (snd (xSemaphoreTake w))) = fst (pvPortMalloc w)"
    by (simp add: pvPortMalloc_def split: list.splits)
  with m assms(5) have ok by simp
  have "pending_queue w2 = pending_queue (snd (xSemaphoreTake w))"
    using pvPortMalloc_fields(1) [of "snd (xSemaphoreTake w)"] m by simp
  then have q: "pending_queue w2 = Some None"
    using assms(4) by simp
  show ?thesis
    unfolding d using assms(2,3,4) m \<open>ok\<close> q
    by (simp add: receiver_reply_def Let_def xQueueSend_def MSG_TYPE_ERROR_def
        MSG_TYPE_RESPONSE_def numeral_3_eq_3)
qed

text \<open>
  Claim C9. Let the frame of an Error message of exactly two bytes, the type 0x21 and
  the counter of the pending call, arrive while the caller waits (the slot of the
  pending queue is empty) and the heap gives the envelope. Then the pass of the
  receiver loop puts the envelope \<open>[0, 0, 2]\<close> into the slot: no result bytes and the
  error code \<^verbatim>\<open>ERR_INTERNAL\<close>. Unpacked by \<^verbatim>\<open>transport_call\<close>, it gives the return
  value 0, the error code 2, the length 0 and no response buffer.
\<close>

theorem receiver_short_error_is_internal_error:
  assumes "length (rx_buffer w) = 256" and "s_uart_installed w"
    and "uart_rx w = map Rx (link_build_frame (Some [MSG_TYPE_ERROR, current_counter w]) 2) @ rest"
    and "pending_queue w = Some None" and "fst (pvPortMalloc w)"
  shows "pending_queue (transport_receiver_task w) = Some (Some [0, 0, ERR_INTERNAL]) \<and>
         ERR_INTERNAL = 2 \<and>
         fst (transport_call_deliver [0, 0, ERR_INTERNAL] out (transport_receiver_task w)) = 0 \<and>
         fst (snd (transport_call_deliver [0, 0, ERR_INTERNAL] out (transport_receiver_task w))) =
           \<lparr>response = None, resp_len = 0, error_code = 2\<rparr>"
proof -
  let ?msg = "[MSG_TYPE_ERROR, current_counter w]"
  let ?w2 = "w\<lparr>uart_rx := rest, rx_buffer := ?msg @ drop (length ?msg) (rx_buffer w),
               rx_len := of_nat (length ?msg)\<rparr>"
  have t: "transport_receiver_task w = receiver_dispatch ?w2"
    using assms(1-3) by (intro transport_receiver_task_frame) simp_all
  have "fst (pvPortMalloc ?w2) = fst (pvPortMalloc w)"
    by (simp add: pvPortMalloc_def split: list.splits)
  with assms(5) have "fst (pvPortMalloc ?w2)" by simp
  then have p: "pending_queue (receiver_dispatch ?w2) = Some (Some [0, 0, ERR_INTERNAL])"
    using assms(4) by (intro receiver_dispatch_short_error) simp_all
  show ?thesis
    unfolding t using p
    by (cases out) (simp add: transport_call_deliver_def Let_def ERR_INTERNAL_def)
qed

theorem receiver_short_error_is_internal_error_witness:
  "length (rx_buffer world_init) = 256 \<and> s_uart_installed world_init \<and>
   fst (pvPortMalloc (world_init\<lparr>pending_queue := Some None, current_counter := 5,
        uart_rx := map Rx (link_build_frame (Some [MSG_TYPE_ERROR, 5]) 2)\<rparr>)) \<and>
   pending_queue (transport_receiver_task
     (world_init\<lparr>pending_queue := Some None, current_counter := 5,
        uart_rx := map Rx (link_build_frame (Some [MSG_TYPE_ERROR, 5]) 2)\<rparr>)) =
     Some (Some [0, 0, 2])"
  using receiver_short_error_is_internal_error
    [where rest = "[]"
       and w = "world_init\<lparr>pending_queue := Some None, current_counter := 5,
                  uart_rx := map Rx (link_build_frame (Some [MSG_TYPE_ERROR, 5]) 2)\<rparr>"]
  by (simp add: world_init_def pvPortMalloc_def ERR_INTERNAL_def)

section \<open>Transport layer: a request for a name that is not registered\<close>

lemma scan_name_eq:
  "i \<le> n \<Longrightarrow> n \<le> length rx \<Longrightarrow>
   scan_name rx n i = i + length (takeWhile (\<lambda>c. c \<noteq> 0) (take (n - i) (drop i rx)))"
proof (induction rx n i rule: scan_name.induct)
  case (1 rx n i)
  show ?case
  proof (cases "i < n")
    case True
    with "1.prems" have d: "drop i rx = rx ! i # drop (Suc i) rx"
      by (simp add: Cons_nth_drop_Suc)
    from True have t: "n - i = Suc (n - Suc i)" by simp
    show ?thesis
    proof (cases "rx ! i = 0")
      case z: True
      with True show ?thesis
        by (subst scan_name.simps) (simp add: d t)
    next
      case nz: False
      with True "1.prems" have
        "scan_name rx n (i + 1) =
         i + 1 + length (takeWhile (\<lambda>c. c \<noteq> 0) (take (n - (i + 1)) (drop (i + 1) rx)))"
        by (intro "1.IH") simp_all
      with True nz show ?thesis
        by (subst scan_name.simps) (simp add: d t)
    qed
  next
    case False
    with "1.prems" show ?thesis
      by (subst scan_name.simps) simp
  qed
qed

lemma strncmp_same_length:
  "strlen s1 = n \<Longrightarrow> n \<le> length s2 \<Longrightarrow> 0 \<notin> set (take n s2) \<Longrightarrow>
   (strncmp s1 s2 n = 0) = (take n s1 = take n s2)"
proof (induction n arbitrary: s1 s2)
  case 0
  then show ?case by simp
next
  case (Suc n)
  from Suc.prems(1) obtain c s1' where s1: "s1 = c # s1'" and c: "c \<noteq> 0" and l1: "strlen s1' = n"
    by (cases s1) (auto simp: strlen_def split: if_splits)
  from Suc.prems(2,3) obtain d s2' where s2: "s2 = d # s2'" and d: "d \<noteq> 0"
    and l2: "n \<le> length s2'" and z2: "0 \<notin> set (take n s2')"
    by (cases s2) auto
  from Suc.IH [OF l1 l2 z2] c d show ?case
    by (auto simp: s1 s2 Let_def)
qed

lemma take_strlen: "take (strlen s) s = takeWhile (\<lambda>c. c \<noteq> 0) s"
  unfolding strlen_def by (induction s) auto

lemma receiver_dispatch_unknown_function:
  assumes "rx_buffer w = MSG_TYPE_REQUEST # counter # nm @ 0 # args @ pad"
    and "0 \<notin> set nm"
    and "rx_len w = of_nat (3 + length nm + length args)"
    and "length (rx_buffer w) = 256"
    and "\<forall>j < registry_count w.
           takeWhile (\<lambda>c. c \<noteq> 0) (name (function_registry w ! j)) \<noteq> nm"
  shows "receiver_dispatch w =
           snd (link_send_frame (Some [MSG_TYPE_ERROR, counter, ERR_FUNC_NOT_FOUND]) 3 w) \<and>
         [MSG_TYPE_ERROR, counter, ERR_FUNC_NOT_FOUND] = [0x21, counter, 0x01] \<and>
         invoked (receiver_dispatch w) = invoked w"
proof -
  let ?n = "3 + length nm + length args"
  from assms(1,4) have n256: "?n \<le> 256" by simp
  then have un: "unat (rx_len w) = ?n"
    unfolding assms(3) unat_of_nat by simp
  have ge3: "\<not> rx_len w < 3"
    using un by (simp add: word_less_nat_alt)
  have tw: "takeWhile (\<lambda>c. c \<noteq> 0) (take (?n - 2) (drop 2 (rx_buffer w))) = nm"
    using assms(1,2) by (auto simp: takeWhile_tail)
  have sc: "scan_name (rx_buffer w) (unat (rx_len w)) 2 = 2 + length nm"
    using scan_name_eq [of 2 ?n "rx_buffer w"] assms(4) n256 tw un by simp
  have nl: "unat (of_nat (length nm) :: u8) = length nm"
    using n256 by (simp add: unat_of_nat)
  have nomatch: "\<not> (strlen (name (function_registry w ! m)) = unat (of_nat (length nm) :: u8) \<and>
           strncmp (name (function_registry w ! m)) (drop 2 (rx_buffer w)) (unat (of_nat (length nm) :: u8)) = 0)"
    if "m < registry_count w" for m
  proof
    assume a: "strlen (name (function_registry w ! m)) = unat (of_nat (length nm) :: u8) \<and>
           strncmp (name (function_registry w ! m)) (drop 2 (rx_buffer w)) (unat (of_nat (length nm) :: u8)) = 0"
    then have sl: "strlen (name (function_registry w ! m)) = length nm"
      and sc: "strncmp (name (function_registry w ! m)) (drop 2 (rx_buffer w)) (length nm) = 0"
      by (simp_all add: nl)
    have "take (length nm) (name (function_registry w ! m)) = take (length nm) (drop 2 (rx_buffer w))"
      using strncmp_same_length [OF sl, of "drop 2 (rx_buffer w)"] sc assms(1,2) by simp
    then have "takeWhile (\<lambda>c. c \<noteq> 0) (name (function_registry w ! m)) = nm"
      using take_strlen [of "name (function_registry w ! m)"] sl assms(1) by simp
    with assms(5) that show False by simp
  qed
  have ff: "find_function (drop 2 (rx_buffer w)) (of_nat (length nm)) w = None"
    unfolding find_function_def using nomatch by (intro find_function_loop_no_match) blast
  have "receiver_request counter w = send_error_response counter ERR_FUNC_NOT_FOUND w"
    using ge3 sc un ff by (simp add: receiver_request_def Let_def)
  moreover have "receiver_dispatch w = receiver_request counter w"
    using assms(1) by (simp add: receiver_dispatch_def Let_def)
  moreover have "send_error_response counter ERR_FUNC_NOT_FOUND w =
      snd (link_send_frame (Some [MSG_TYPE_ERROR, counter, ERR_FUNC_NOT_FOUND]) 3 w)"
    by (simp add: send_error_response_def Let_def numeral_3_eq_3)
  ultimately show ?thesis
    by (simp add: MSG_TYPE_ERROR_def ERR_FUNC_NOT_FOUND_def)
qed

lemma link_send_frame_wire:
  assumes "fst (pvPortMalloc w)" and "uart_write_plan w = []" and "s_uart_installed w"
    and "length p = unat len"
  shows "uart_tx (snd (link_send_frame (Some p) len w)) = uart_tx w @ link_build_frame (Some p) len"
proof -
  obtain ok w1 where m: "pvPortMalloc w = (ok, w1)" by (cases "pvPortMalloc w")
  with assms(1) have ok by simp
  have f: "uart_write_plan w1 = []" "s_uart_installed w1" "uart_tx w1 = uart_tx w"
    using pvPortMalloc_fields [of w] m assms(2,3) by simp_all
  have "length (link_build_frame (Some p) len) = unat len + 7"
    using assms(4) by (simp add: build_frame_closed link_header_def Let_def)
  then show ?thesis
    using m \<open>ok\<close> f
    by (simp add: link_send_frame_def Let_def physical_send_def uart_write_bytes_def)
qed

text \<open>
  Claim C8. Let the frame of a Request message arrive: type 0x0B, a counter, a name
  without NUL, a NUL, arguments; at most 256 bytes in all. When the name is the string
  of no registered entry, the pass of the receiver loop does one thing after taking the
  message: it hands the payload \<open>[0x21, counter, 0x01]\<close>, of length 3, to
  \<^verbatim>\<open>link_send_frame\<close>. No callback is invoked. When the heap gives the frame buffer
  and the driver writes all bytes, the frame of that payload is what the wire gets.
\<close>

theorem receiver_unknown_function:
  assumes "msg = MSG_TYPE_REQUEST # counter # nm @ 0 # args"
    and "0 \<notin> set nm" and "length msg \<le> 256"
    and "length (rx_buffer w) = 256" and "s_uart_installed w"
    and "uart_rx w = map Rx (link_build_frame (Some msg) (of_nat (length msg))) @ rest"
    and "\<forall>j < registry_count w.
           takeWhile (\<lambda>c. c \<noteq> 0) (name (function_registry w ! j)) \<noteq> nm"
  shows "transport_receiver_task w =
           snd (link_send_frame (Some [0x21, counter, 0x01]) 3
                  (w\<lparr>uart_rx := rest, rx_buffer := msg @ drop (length msg) (rx_buffer w),
                     rx_len := of_nat (length msg)\<rparr>)) \<and>
         invoked (transport_receiver_task w) = invoked w \<and>
         (fst (pvPortMalloc w) \<and> uart_write_plan w = [] \<longrightarrow>
            uart_tx (transport_receiver_task w) =
              uart_tx w @ link_build_frame (Some [0x21, counter, 0x01]) 3)"
proof -
  let ?w2 = "w\<lparr>uart_rx := rest, rx_buffer := msg @ drop (length msg) (rx_buffer w),
               rx_len := of_nat (length msg)\<rparr>"
  have l2: "2 \<le> length msg" using assms(1) by simp
  have t: "transport_receiver_task w = receiver_dispatch ?w2"
    using l2 assms(3-6) by (rule transport_receiver_task_frame)
  have d: "receiver_dispatch ?w2 =
             snd (link_send_frame (Some [MSG_TYPE_ERROR, counter, ERR_FUNC_NOT_FOUND]) 3 ?w2) \<and>
           [MSG_TYPE_ERROR, counter, ERR_FUNC_NOT_FOUND] = [0x21, counter, 0x01] \<and>
           invoked (receiver_dispatch ?w2) = invoked ?w2"
  proof (rule receiver_dispatch_unknown_function)
    show "rx_buffer ?w2 = MSG_TYPE_REQUEST # counter # nm @ 0 # args @ drop (length msg) (rx_buffer w)"
      using assms(1) by simp
    show "0 \<notin> set nm" by (rule assms(2))
    show "rx_len ?w2 = of_nat (3 + length nm + length args)"
      using assms(1) by simp
    show "length (rx_buffer ?w2) = 256"
      using assms(3,4) by simp
    show "\<forall>j < registry_count ?w2.
            takeWhile (\<lambda>c. c \<noteq> 0) (name (function_registry ?w2 ! j)) \<noteq> nm"
      using assms(7) by simp
  qed
  have e: "transport_receiver_task w =
           snd (link_send_frame (Some [0x21, counter, 0x01]) 3 ?w2)"
    using t d by simp
  have "uart_tx (snd (link_send_frame (Some [0x21, counter, 0x01]) 3 ?w2)) =
        uart_tx ?w2 @ link_build_frame (Some [0x21, counter, 0x01]) 3"
    if "fst (pvPortMalloc w)" and "uart_write_plan w = []"
  proof (rule link_send_frame_wire)
    have "fst (pvPortMalloc ?w2) = fst (pvPortMalloc w)"
      by (simp add: pvPortMalloc_def split: list.splits)
    with that(1) show "fst (pvPortMalloc ?w2)" by simp
    show "uart_write_plan ?w2 = []" using that(2) by simp
    show "s_uart_installed ?w2" using assms(5) by simp
    show "length [0x21, counter, 0x01] = unat (3 :: u16)" by simp
  qed
  with e show ?thesis by simp
qed

theorem receiver_unknown_function_witness:
  "[0x0B, 5, 0x73, 0x75, 0x6E, 0, 1, 2] = MSG_TYPE_REQUEST # 5 # [0x73, 0x75, 0x6E] @ 0 # [1, 2] \<and>
   (0 :: u8) \<notin> set [0x73, 0x75, 0x6E] \<and>
   length (rx_buffer world_sum_twice) = 256 \<and> s_uart_installed world_sum_twice \<and>
   registry_count world_sum_twice = 2 \<and>
   takeWhile (\<lambda>c. c \<noteq> 0) (name (function_registry world_sum_twice ! 0)) \<noteq> [0x73, 0x75, 0x6E] \<and>
   takeWhile (\<lambda>c. c \<noteq> 0) (name (function_registry world_sum_twice ! 1)) \<noteq> [0x73, 0x75, 0x6E] \<and>
   invoked (transport_receiver_task
     (world_sum_twice\<lparr>uart_rx := map Rx (link_build_frame (Some [0x0B, 5, 0x73, 0x75, 0x6E, 0, 1, 2]) 8)\<rparr>)) = [] \<and>
   uart_tx (transport_receiver_task
     (world_sum_twice\<lparr>uart_rx := map Rx (link_build_frame (Some [0x0B, 5, 0x73, 0x75, 0x6E, 0, 1, 2]) 8)\<rparr>)) =
     link_build_frame (Some [0x21, 5, 0x01]) 3"
proof -
  have rc: "registry_count world_sum_twice = 2" by code_simp
  have n0: "takeWhile (\<lambda>c. c \<noteq> 0) (name (function_registry world_sum_twice ! 0)) \<noteq> [0x73, 0x75, 0x6E]"
    by code_simp
  have n1: "takeWhile (\<lambda>c. c \<noteq> 0) (name (function_registry world_sum_twice ! 1)) \<noteq> [0x73, 0x75, 0x6E]"
    by code_simp
  have h: "\<forall>j < registry_count world_sum_twice.
      takeWhile (\<lambda>c. c \<noteq> 0) (name (function_registry world_sum_twice ! j)) \<noteq> [0x73, 0x75, 0x6E]"
    unfolding rc using n0 n1 by (auto simp: less_2_cases_iff)
  have l: "length (rx_buffer world_sum_twice) = 256" by code_simp
  have i: "s_uart_installed world_sum_twice" by code_simp
  have m: "fst (pvPortMalloc world_sum_twice)" by code_simp
  have p: "uart_write_plan world_sum_twice = []" by code_simp
  have tx: "uart_tx world_sum_twice = []" by code_simp
  have iv: "invoked world_sum_twice = []" by code_simp
  have m': "fst (pvPortMalloc (world_sum_twice\<lparr>uart_rx := x\<rparr>)) = fst (pvPortMalloc world_sum_twice)" for x
    by (simp add: pvPortMalloc_def split: list.splits)
  from receiver_unknown_function
    [where msg = "[0x0B, 5, 0x73, 0x75, 0x6E, 0, 1, 2]" and counter = 5
       and nm = "[0x73, 0x75, 0x6E]" and args = "[1, 2]" and rest = "[]"
       and w = "world_sum_twice\<lparr>uart_rx := map Rx (link_build_frame (Some [0x0B, 5, 0x73, 0x75, 0x6E, 0, 1, 2]) 8)\<rparr>",
       THEN conjunct2]
    h l i m p tx iv m' rc n0 n1
  show ?thesis
    by (simp add: MSG_TYPE_REQUEST_def)
qed

section \<open>Transport layer: the pending state when a call returns\<close>

lemma clear_pending_None [simp]: "pending_queue (clear_pending w) = None"
  by (simp add: clear_pending_def)

lemma transport_call_deliver_clears:
  "transport_call_deliver resp_buf out w = (r, out', w') \<Longrightarrow> r \<noteq> - 8 \<Longrightarrow>
   pending_queue w' = None"
  by (auto simp: transport_call_deliver_def Let_def split: if_splits prod.splits)

text \<open>
  The returns of \<^verbatim>\<open>transport_call\<close> that leave no pending call: success (0), no
  queue (-4), no request buffer (-5), send failure (-6) and timeout (-7).
\<close>

lemma transport_call_clears_pending:
  assumes "transport_call nm args args_len outp timeout w = (r, outp', w')"
    and "r \<in> {0, - 4, - 5, - 6, - 7}"
  shows "pending_queue w' = None"
proof (cases "nm = None \<or> outp = None")
  case True
  with assms show ?thesis
    by (auto simp: transport_call_def split: option.splits)
next
  case False
  then obtain s out where nm: "nm = Some s" and outp: "outp = Some out" by auto
  obtain ok w1 where t: "xSemaphoreTake w = (ok, w1)" by (cases "xSemaphoreTake w")
  show ?thesis
  proof (cases "ok \<and> pending_queue w1 = None")
    case False
    with assms t show ?thesis
      by (cases ok) (auto simp: transport_call_def nm outp)
  next
    case True
    obtain qok w2 where q: "pvPortMalloc w1 = (qok, w2)" by (cases "pvPortMalloc w1")
    have q2: "pending_queue w2 = None"
      using pvPortMalloc_fields(1) [of w1] q True by simp
    show ?thesis
    proof (cases qok)
      case False
      with assms t q True q2 show ?thesis
        by (auto simp: transport_call_def nm outp)
    next
      case qt: True
      let ?w3 = "w2\<lparr>pending_queue := Some None, current_counter := current_counter w2 + 1\<rparr>"
      obtain pok w4 where p: "pvPortMalloc ?w3 = (pok, w4)" by (cases "pvPortMalloc ?w3")
      show ?thesis
      proof (cases pok)
        case False
        with assms t q True qt p show ?thesis
          by (auto simp: transport_call_def nm outp Let_def)
      next
        case pt: True
        show ?thesis
          using assms t q True qt p pt
          by (auto simp: transport_call_def nm outp Let_def
              split: prod.splits if_splits option.splits
              dest: transport_call_deliver_clears)
      qed
    qed
  qed
qed

text \<open>
  Claim C1 fails on one return. The call \<^verbatim>\<open>transport_call("sum", {1, 2}, 2, ...)\<close>
  sends its request with the counter 1; the Response \<open>[0x16, 0x01, 0x33]\<close> arrives and
  is delivered; the allocation of the caller's copy fails. The call returns -8 with
  \<^verbatim>\<open>pending_queue\<close> still set, and the next call is refused with -3.
\<close>

theorem transport_call_alloc_failure_keeps_pending:
  "fst (transport_call (Some name_sum) (Some [1, 2]) 2 (Some out_init) 3
          world_reply_heap_exhausted) = - 8 \<and>
   pending_queue (snd (snd (transport_call (Some name_sum) (Some [1, 2]) 2 (Some out_init) 3
          world_reply_heap_exhausted))) = Some None \<and>
   fst (transport_call (Some name_sum) (Some [1, 2]) 2 (Some out_init) 3
          (snd (snd (transport_call (Some name_sum) (Some [1, 2]) 2 (Some out_init) 3
             world_reply_heap_exhausted)))) = - 3"
proof -
  have a: "fst (transport_call (Some name_sum) (Some [1, 2]) 2 (Some out_init) 3
          world_reply_heap_exhausted) = - 8"
    by code_simp
  have b: "pending_queue (snd (snd (transport_call (Some name_sum) (Some [1, 2]) 2 (Some out_init) 3
          world_reply_heap_exhausted))) = Some None"
    by code_simp
  have c: "fst (transport_call (Some name_sum) (Some [1, 2]) 2 (Some out_init) 3
          (snd (snd (transport_call (Some name_sum) (Some [1, 2]) 2 (Some out_init) 3
             world_reply_heap_exhausted)))) = - 3"
    by code_simp
  from a b c show ?thesis by blast
qed

end
